theory Spec2Isabelle
  imports Complex_Main
begin

section \<open>Values\<close>

text \<open>
  The script \<^verbatim>\<open>code/bert.py\<close> computes with Python integers, Python floats and numpy
  float64 scalars. A float is modelled as a finite real number (rounding and overflow
  are idealised away), one of the two infinities, or not-a-number. Exceptions are values
  of \<open>py_error\<close>; a computation that can raise returns \<open>py_error + 'a\<close>.
\<close>

datatype py_error = ValueError | IndexError | ZeroDivisionError | ShapeError | RuntimeError

datatype npfloat = Fin real | PosInf | NegInf | NaN

text \<open>Float addition (\<^verbatim>\<open>+=\<close> on the accumulators).\<close>

fun np_add :: "npfloat \<Rightarrow> npfloat \<Rightarrow> npfloat" where
  "np_add (Fin a) (Fin b) = Fin (a + b)"
| "np_add NaN _ = NaN"
| "np_add _ NaN = NaN"
| "np_add PosInf NegInf = NaN"
| "np_add NegInf PosInf = NaN"
| "np_add PosInf _ = PosInf"
| "np_add _ PosInf = PosInf"
| "np_add NegInf _ = NegInf"
| "np_add _ NegInf = NegInf"

text \<open>A float divided by a positive count.\<close>

fun np_div_count :: "npfloat \<Rightarrow> nat \<Rightarrow> npfloat" where
  "np_div_count (Fin a) n = Fin (a / real n)"
| "np_div_count x n = x"

text \<open>
  Python's \<^verbatim>\<open>x / n\<close> for a float (or the integer 0) \<open>x\<close> and a Python integer
  \<open>n\<close>: a zero divisor raises.
\<close>

definition py_truediv :: "npfloat \<Rightarrow> nat \<Rightarrow> py_error + npfloat" where
  "py_truediv x n = (if n = 0 then Inl ZeroDivisionError else Inr (np_div_count x n))"

text \<open>
  numpy's true division of two integers, one of them a numpy int64 scalar: a zero divisor
  does not raise, it yields nan or an infinity (with a warning).
\<close>

definition np_true_divide :: "int \<Rightarrow> int \<Rightarrow> npfloat" where
  "np_true_divide a b =
     (if b \<noteq> 0 then Fin (real_of_int a / real_of_int b)
      else if a = 0 then NaN
      else if 0 < a then PosInf
      else NegInf)"

text \<open>The comparison \<^verbatim>\<open>x >= y\<close> of two floats; every comparison with nan is false.\<close>

fun np_ge :: "npfloat \<Rightarrow> npfloat \<Rightarrow> bool" where
  "np_ge NaN _ = False"
| "np_ge _ NaN = False"
| "np_ge PosInf _ = True"
| "np_ge _ NegInf = True"
| "np_ge _ PosInf = False"
| "np_ge NegInf _ = False"
| "np_ge (Fin a) (Fin b) = (b \<le> a)"

text \<open>The sum of floats accumulated from 0, left to right.\<close>

definition np_sum :: "npfloat list \<Rightarrow> npfloat" where
  "np_sum xs = foldl np_add (Fin 0) xs"

section \<open>The metric function\<close>

text \<open>
  \<^verbatim>\<open>np.argmax\<close> of one row: the index of the first occurrence of the maximum.
  \<open>argmax_scan best bi i xs\<close> scans the rest \<open>xs\<close> of the row, whose first element
  has index \<open>i\<close>, with the best value \<open>best\<close> seen so far at index \<open>bi\<close>.
\<close>

fun argmax_scan :: "real \<Rightarrow> nat \<Rightarrow> nat \<Rightarrow> real list \<Rightarrow> nat" where
  "argmax_scan best bi i [] = bi"
| "argmax_scan best bi i (x # xs) =
     (if best < x then argmax_scan x i (Suc i) xs else argmax_scan best bi (Suc i) xs)"

fun argmax :: "real list \<Rightarrow> nat" where
  "argmax [] = 0"
| "argmax (x # xs) = argmax_scan x 0 1 xs"

text \<open>
  \<^verbatim>\<open>outputs == labels\<close> on two one-dimensional arrays: elementwise when the lengths
  agree, broadcast when one of them has length one, an error otherwise.
\<close>

definition eq_broadcast :: "nat list \<Rightarrow> int list \<Rightarrow> bool list option" where
  "eq_broadcast outputs labels =
     (if length outputs = length labels then Some (map2 (\<lambda>out l. int out = l) outputs labels)
      else if length outputs = 1 then Some (map (\<lambda>l. int (hd outputs) = l) labels)
      else if length labels = 1 then Some (map (\<lambda>out. int out = hd labels) outputs)
      else None)"

text \<open>
  \<^verbatim>\<open>
  def accuracy(logits,labels):
      outputs = np.argmax(logits, axis=1)
      sum1 = sum([1 if outputs[i]==labels[i] and labels[i]==1 else 0 for i in range(len(outputs))])
      return sum(outputs == labels)/len(outputs),sum1/sum(outputs),sum1/sum(labels)
  \<close>
  \<open>logits\<close> is the list of the rows of the score matrix. \<^verbatim>\<open>np.argmax\<close> raises on a
  matrix with rows and no column; the list comprehension raises when \<open>labels\<close> is
  shorter than \<open>outputs\<close>; with no row at all the first quotient is the Python division
  \<^verbatim>\<open>0/0\<close>, which raises. Otherwise the three quotients are numpy divisions.
\<close>

definition accuracy :: "real list list \<Rightarrow> int list \<Rightarrow> py_error + (npfloat \<times> npfloat \<times> npfloat)" where
  "accuracy logits labels =
     (if \<exists>row \<in> set logits. row = [] then Inl ValueError
      else
        let outputs = map argmax logits in
        if length labels < length outputs then Inl IndexError
        else
          let sum1 = sum_list (map (\<lambda>i. if int (outputs ! i) = labels ! i \<and> labels ! i = 1
                                           then 1 else 0) [0..<length outputs])
          in case eq_broadcast outputs labels of
               None \<Rightarrow> Inl ShapeError
             | Some eqs \<Rightarrow>
                 if length outputs = 0 then Inl ZeroDivisionError
                 else Inr (np_true_divide (int (length (filter id eqs))) (int (length outputs)),
                           np_true_divide sum1 (int (sum_list outputs)),
                           np_true_divide sum1 (sum_list labels)))"

section \<open>Folds\<close>

text \<open>
  A dataset is a sequence of examples (token ids, attention mask, label). A batch is the
  three columns of a run of consecutive examples.
\<close>

record example =
  input_ids :: "int list"
  attn_mask :: "int list"
  label :: int

type_synonym batch = "int list list \<times> int list list \<times> int list"

definition collate :: "example list \<Rightarrow> batch" where
  "collate exs = (map input_ids exs, map attn_mask exs, map label exs)"

record data_loader =
  dataset :: "example list"
  batch_size :: nat

text \<open>
  \<^verbatim>\<open>DataLoader(dataset, sampler=SequentialSampler(dataset), batch_size=k, drop_last=False)\<close>:
  the library refuses a batch size that is not positive.
\<close>

definition DataLoader :: "example list \<Rightarrow> int \<Rightarrow> py_error + data_loader" where
  "DataLoader ds k =
     (if k \<le> 0 then Inl ValueError else Inr \<lparr>dataset = ds, batch_size = nat k\<rparr>)"

text \<open>
  Iterating a loader with a sequential sampler and \<^verbatim>\<open>drop_last=False\<close>: the examples
  in order, \<open>k\<close> at a time, the rest in a last shorter batch.
\<close>

function batches_of :: "nat \<Rightarrow> 'a list \<Rightarrow> 'a list list" where
  "batches_of k xs = (if k = 0 \<or> xs = [] then [] else take k xs # batches_of k (drop k xs))"
  by pat_completeness auto
termination
  by (relation "measure (\<lambda>(k, xs). length xs)") auto

declare batches_of.simps [simp del]

definition iter_loader :: "data_loader \<Rightarrow> batch list" where
  "iter_loader dl = map collate (batches_of (batch_size dl) (dataset dl))"

text \<open>\<^verbatim>\<open>len(data_loader)\<close>, as the batch sampler computes it without iterating.\<close>

definition len_loader :: "data_loader \<Rightarrow> nat" where
  "len_loader dl = (length (dataset dl) + batch_size dl - 1) div batch_size dl"

fun collect :: "('e + 'a) list \<Rightarrow> 'e + 'a list" where
  "collect [] = Inr []"
| "collect (Inl e # rs) = Inl e"
| "collect (Inr x # rs) = (case collect rs of Inl e \<Rightarrow> Inl e | Inr xs \<Rightarrow> Inr (x # xs))"

section \<open>The collaborators\<close>

text \<open>
  The classifier, the optimizer, the scheduler, the logger and the checkpoint file are
  outside the script. Every call the script makes on them is recorded, in order, in a
  history of events. What the classifier returns for a batch is a function of the
  history so far (which holds every parameter update) and of the batch: the elements of
  the loss tensor and the rows of the logits. The progress bar is display only and is
  left out.
\<close>

record epoch_result =
  eval_loss :: npfloat
  eval_accuracy :: npfloat
  eval_precision :: npfloat
  eval_recall :: npfloat
  train_loss :: npfloat

datatype event =
    ModelTrain
  | ModelEval
  | Forward batch
  | Backward "npfloat list"
  | ClipGradNorm real
  | OptimizerStep
  | SchedulerStep
  | ZeroGrad
  | LogResults epoch_result
  | TorchSave

type_synonym model = "event list \<Rightarrow> batch \<Rightarrow> npfloat list \<times> real list list"

text \<open>\<^verbatim>\<open>loss.mean()\<close>: the mean of the elements of a tensor (nan for none).\<close>

definition tensor_mean :: "npfloat list \<Rightarrow> npfloat" where
  "tensor_mean t = (if t = [] then NaN else np_div_count (np_sum t) (length t))"

text \<open>\<^verbatim>\<open>loss.item()\<close>: the value of a tensor of exactly one element.\<close>

definition item :: "npfloat list \<Rightarrow> py_error + npfloat" where
  "item t = (case t of [x] \<Rightarrow> Inr x | _ \<Rightarrow> Inl RuntimeError)"

section \<open>The training loop\<close>

text \<open>
  Lines 111 to 123, one batch of a training fold. The state is the history and the
  running \<^verbatim>\<open>train_loss\<close>.
  \<^verbatim>\<open>
  loss = model(input_ids=input_ids, attention_mask=attn_mask, labels=labels)[0]
  if n_gpu > 1:
      loss = loss.mean()
  train_loss+=loss.item()
  loss.backward()
  torch.nn.utils.clip_grad_norm_(model.parameters(), 1.0)
  optimizer.step()
  scheduler.step()
  model.zero_grad()
  \<close>
\<close>

definition train_step ::
  "model \<Rightarrow> nat \<Rightarrow> event list \<times> npfloat \<Rightarrow> batch \<Rightarrow> py_error + event list \<times> npfloat" where
  "train_step M n_gpu s b =
     (let h = fst s;
          loss0 = fst (M h b);
          loss = (if 1 < n_gpu then [tensor_mean loss0] else loss0)
      in case item loss of
           Inl e \<Rightarrow> Inl e
         | Inr v \<Rightarrow>
             Inr (h @ [Forward b, Backward loss, ClipGradNorm 1, OptimizerStep,
                       SchedulerStep, ZeroGrad],
                  np_add (snd s) v))"

text \<open>\<^verbatim>\<open>for batch in data_loader\<close> (line 110).\<close>

fun train_batches ::
  "model \<Rightarrow> nat \<Rightarrow> event list \<times> npfloat \<Rightarrow> batch list \<Rightarrow> py_error + event list \<times> npfloat" where
  "train_batches M n_gpu s [] = Inr s"
| "train_batches M n_gpu s (b # bs) =
     (case train_step M n_gpu s b of
        Inl e \<Rightarrow> Inl e
      | Inr s' \<Rightarrow> train_batches M n_gpu s' bs)"

text \<open>\<^verbatim>\<open>for data_loader in data_loaders[:3]\<close> (line 109).\<close>

fun train_folds ::
  "model \<Rightarrow> nat \<Rightarrow> event list \<times> npfloat \<Rightarrow> data_loader list \<Rightarrow> py_error + event list \<times> npfloat" where
  "train_folds M n_gpu s [] = Inr s"
| "train_folds M n_gpu s (dl # dls) =
     (case train_batches M n_gpu s (iter_loader dl) of
        Inl e \<Rightarrow> Inl e
      | Inr s' \<Rightarrow> train_folds M n_gpu s' dls)"

section \<open>The evaluation loop\<close>

text \<open>
  The accumulators of line 128. Lines 131 to 147, one batch of the evaluation fold:
  \<^verbatim>\<open>
  outputs = model(input_ids=input_ids, attention_mask=attn_mask, labels=labels)
  logits = outputs['logits']
  loss = outputs['loss']
  tmp_eval_accuracy, tmp_eval_precision, tmp_eval_recall = accuracy(logits, label_ids.reshape(-1))
  eval_loss += loss.mean().item()
  eval_accuracy += tmp_eval_accuracy
  eval_precision += tmp_eval_precision
  eval_recall += tmp_eval_recall
  eval_examples += input_ids.size(0)
  \<close>
\<close>

record eval_sums =
  sum_loss :: npfloat
  sum_accuracy :: npfloat
  sum_precision :: npfloat
  sum_recall :: npfloat
  eval_examples :: nat

definition eval_step ::
  "model \<Rightarrow> event list \<times> eval_sums \<Rightarrow> batch \<Rightarrow> py_error + event list \<times> eval_sums" where
  "eval_step M s b =
     (let h = fst s; a = snd s;
          loss = fst (M h b);
          logits = snd (M h b)
      in case accuracy logits (snd (snd b)) of
           Inl e \<Rightarrow> Inl e
         | Inr (tmp_eval_accuracy, tmp_eval_precision, tmp_eval_recall) \<Rightarrow>
             Inr (h @ [Forward b],
                  \<lparr>sum_loss = np_add (sum_loss a) (tensor_mean loss),
                   sum_accuracy = np_add (sum_accuracy a) tmp_eval_accuracy,
                   sum_precision = np_add (sum_precision a) tmp_eval_precision,
                   sum_recall = np_add (sum_recall a) tmp_eval_recall,
                   eval_examples = eval_examples a + length (fst b)\<rparr>))"

fun eval_batches ::
  "model \<Rightarrow> event list \<times> eval_sums \<Rightarrow> batch list \<Rightarrow> py_error + event list \<times> eval_sums" where
  "eval_batches M s [] = Inr s"
| "eval_batches M s (b # bs) =
     (case eval_step M s b of
        Inl e \<Rightarrow> Inl e
      | Inr s' \<Rightarrow> eval_batches M s' bs)"

text \<open>
  Lines 127 to 152: the evaluation fold, then each sum divided by
  \<^verbatim>\<open>len(eval_loader)\<close>. With no batch the first division (line 149) is the Python
  division \<^verbatim>\<open>0 / 0\<close>, which raises.
\<close>

definition evaluate ::
  "model \<Rightarrow> event list \<Rightarrow> data_loader \<Rightarrow> py_error + event list \<times> eval_sums" where
  "evaluate M h eval_loader =
     (case eval_batches M (h @ [ModelEval],
             \<lparr>sum_loss = Fin 0, sum_accuracy = Fin 0, sum_precision = Fin 0,
              sum_recall = Fin 0, eval_examples = 0\<rparr>) (iter_loader eval_loader) of
        Inl e \<Rightarrow> Inl e
      | Inr (h', a) \<Rightarrow>
          if len_loader eval_loader = 0 then Inl ZeroDivisionError
          else Inr (h',
                 \<lparr>sum_loss = np_div_count (sum_loss a) (len_loader eval_loader),
                  sum_accuracy = np_div_count (sum_accuracy a) (len_loader eval_loader),
                  sum_precision = np_div_count (sum_precision a) (len_loader eval_loader),
                  sum_recall = np_div_count (sum_recall a) (len_loader eval_loader),
                  eval_examples = eval_examples a\<rparr>))"

section \<open>The epoch loop\<close>

record run_state =
  history :: "event list"
  best_accuracy :: npfloat

text \<open>
  Lines 164 to 166:
  \<^verbatim>\<open>
  if eval_accuracy >= best_accuracy:
      torch.save(model.state_dict(), "model/model_best.pt")
      best_accuracy = eval_accuracy
  \<close>
\<close>

definition checkpoint_decision :: "npfloat \<Rightarrow> run_state \<Rightarrow> run_state" where
  "checkpoint_decision acc st =
     (if np_ge acc (best_accuracy st)
      then \<lparr>history = history st @ [TorchSave], best_accuracy = acc\<rparr>
      else st)"

text \<open>
  Lines 106 to 166, one epoch: the three training folds, the evaluation fold
  \<^verbatim>\<open>data_loaders[3]\<close>, the result dictionary with
  \<^verbatim>\<open>'train_loss': train_loss / step_per_epoch\<close>, its logging (sorted by key), and the
  checkpoint decision.
\<close>

definition epoch ::
  "model \<Rightarrow> nat \<Rightarrow> data_loader list \<Rightarrow> nat \<Rightarrow> run_state \<Rightarrow> py_error + run_state" where
  "epoch M n_gpu data_loaders step_per_epoch st =
     (case train_folds M n_gpu (history st @ [ModelTrain], Fin 0) (take 3 data_loaders) of
        Inl e \<Rightarrow> Inl e
      | Inr (h1, loss_total) \<Rightarrow>
          if length data_loaders \<le> 3 then Inl IndexError
          else
            (case evaluate M h1 (data_loaders ! 3) of
               Inl e \<Rightarrow> Inl e
             | Inr (h2, ev) \<Rightarrow>
                 (case py_truediv loss_total step_per_epoch of
                    Inl e \<Rightarrow> Inl e
                  | Inr loss_mean \<Rightarrow>
                      Inr (checkpoint_decision (sum_accuracy ev)
                             \<lparr>history = h2 @ [LogResults
                                  \<lparr>eval_loss = sum_loss ev, eval_accuracy = sum_accuracy ev,
                                   eval_precision = sum_precision ev, eval_recall = sum_recall ev,
                                   train_loss = loss_mean\<rparr>],
                              best_accuracy = best_accuracy st\<rparr>))))"

text \<open>\<^verbatim>\<open>for ie in range(int(args.num_train_epochs))\<close> (line 105).\<close>

fun epochs ::
  "model \<Rightarrow> nat \<Rightarrow> data_loader list \<Rightarrow> nat \<Rightarrow> nat \<Rightarrow> run_state \<Rightarrow> py_error + run_state" where
  "epochs M n_gpu data_loaders step_per_epoch 0 st = Inr st"
| "epochs M n_gpu data_loaders step_per_epoch (Suc k) st =
     (case epoch M n_gpu data_loaders step_per_epoch st of
        Inl e \<Rightarrow> Inl e
      | Inr st' \<Rightarrow> epochs M n_gpu data_loaders step_per_epoch k st')"

text \<open>
  The options of the command line that the loop reads or that a claim is about; the
  dropout probabilities, the learning rate, the warmup proportion and the seed only reach
  the collaborators.
\<close>

record args =
  train_batch_size :: int
  eval_batch_size :: int
  num_train_epochs :: int

text \<open>
  \<^verbatim>\<open>main\<close>, from the four datasets of \<^verbatim>\<open>getQuatData\<close> on:
  \<^verbatim>\<open>
  samplers = [SequentialSampler(datasets[i]) for i in range(4)]
  data_loaders = [DataLoader(datasets[i], sampler=samplers[i],
                             batch_size=args.train_batch_size, drop_last=False) for i in range(4)]
  step_per_epoch = len(data_loaders[0])*3
  best_accuracy = 0
  \<close>
\<close>

definition build_loaders :: "args \<Rightarrow> example list list \<Rightarrow> py_error + data_loader list" where
  "build_loaders a datasets =
     (if length datasets < 4 then Inl IndexError
      else collect (map (\<lambda>i. DataLoader (datasets ! i) (train_batch_size a)) [0..<4]))"

definition main :: "args \<Rightarrow> nat \<Rightarrow> model \<Rightarrow> example list list \<Rightarrow> py_error + run_state" where
  "main a n_gpu M datasets =
     (case build_loaders a datasets of
        Inl e \<Rightarrow> Inl e
      | Inr data_loaders \<Rightarrow>
          let step_per_epoch = len_loader (data_loaders ! 0) * 3
          in epochs M n_gpu data_loaders step_per_epoch (nat (num_train_epochs a))
               \<lparr>history = [], best_accuracy = Fin 0\<rparr>)"

section \<open>The specification's metrics\<close>

text \<open>
  Precision and recall as the specification words them, on the predicted classes and the
  true labels: the number of examples with predicted class 1 and true label 1, divided by
  the number with predicted class 1 (precision) or with true label 1 (recall).
\<close>

definition spec_precision :: "nat list \<Rightarrow> int list \<Rightarrow> npfloat" where
  "spec_precision predicted true =
     np_true_divide (int (length (filter (\<lambda>(p, t). p = 1 \<and> t = 1) (zip predicted true))))
                    (int (length (filter (\<lambda>p. p = 1) predicted)))"

definition spec_recall :: "nat list \<Rightarrow> int list \<Rightarrow> npfloat" where
  "spec_recall predicted true =
     np_true_divide (int (length (filter (\<lambda>(p, t). p = 1 \<and> t = 1) (zip predicted true))))
                    (int (length (filter (\<lambda>t. t = 1) true)))"

section \<open>Reading a history\<close>

text \<open>
  The order of the operations of one training step, as the specification lists them:
  forward pass, backward pass on the (reduced) loss, clipping of the gradient norm to 1,
  optimizer step, scheduler step, reset of the gradients. \<open>steps_trace\<close> is the history
  of a sequence of such steps, one per batch.
\<close>

definition step_events :: "batch \<Rightarrow> npfloat list \<Rightarrow> event list" where
  "step_events b loss =
     [Forward b, Backward loss, ClipGradNorm 1, OptimizerStep, SchedulerStep, ZeroGrad]"

definition steps_trace :: "batch list \<Rightarrow> npfloat list list \<Rightarrow> event list" where
  "steps_trace bs losses = concat (map2 step_events bs losses)"

text \<open>
  The results logged in a history, the loss tensors on which the backward pass was
  called, and the events that are neither a logged result nor a save.
\<close>

fun logged :: "event list \<Rightarrow> epoch_result list" where
  "logged [] = []"
| "logged (LogResults r # h) = r # logged h"
| "logged (e # h) = logged h"

fun backward_losses :: "event list \<Rightarrow> npfloat list list" where
  "backward_losses [] = []"
| "backward_losses (e # h) =
     (case e of Backward loss \<Rightarrow> loss # backward_losses h | _ \<Rightarrow> backward_losses h)"

fun quiet :: "event \<Rightarrow> bool" where
  "quiet (LogResults r) = False"
| "quiet TorchSave = False"
| "quiet e = True"

text \<open>
  \<open>outcome\<close> reads the checkpoint decisions off a history: for every logged epoch
  result, its evaluation accuracy and whether the next event is a save.
\<close>

fun outcome :: "event list \<Rightarrow> (npfloat \<times> bool) list" where
  "outcome [] = []"
| "outcome (e # h) =
     (case e of
        LogResults r \<Rightarrow> (eval_accuracy r, take 1 h = [TorchSave]) # outcome h
      | _ \<Rightarrow> outcome h)"

text \<open>
  The checkpoint rule as the specification words it, on a sequence of epoch accuracies
  and the best accuracy before them: an epoch saves exactly when its accuracy is at least
  the best so far, and a save makes it the best. \<open>best_after\<close> is the best accuracy
  at the end.
\<close>

fun decisions :: "npfloat \<Rightarrow> npfloat list \<Rightarrow> (npfloat \<times> bool) list" where
  "decisions best [] = []"
| "decisions best (acc # accs) =
     (acc, np_ge acc best) # decisions (if np_ge acc best then acc else best) accs"

definition best_after :: "npfloat \<Rightarrow> npfloat list \<Rightarrow> npfloat" where
  "best_after best accs = foldl (\<lambda>b acc. if np_ge acc b then acc else b) best accs"

section \<open>A small run\<close>

text \<open>Concrete inputs on which the theorems below are instantiated.\<close>

definition sample :: "int \<Rightarrow> example" where
  "sample y = \<lparr>input_ids = [101, y], attn_mask = [1, 1], label = y\<rparr>"

definition demo_args :: args where
  "demo_args = \<lparr>train_batch_size = 2, eval_batch_size = 2, num_train_epochs = 1\<rparr>"

definition demo_datasets :: "example list list" where
  "demo_datasets = [[sample 0, sample 1], [sample 1], [sample 0, sample 0, sample 1],
                    [sample 1, sample 0, sample 0, sample 1, sample 1]]"

definition demo_loaders :: "data_loader list" where
  "demo_loaders = map (\<lambda>ds. \<lparr>dataset = ds, batch_size = 2\<rparr>) demo_datasets"

text \<open>
  A classifier for the small run: on two devices it returns the per-device losses 1 and
  3; it predicts class 1 for every example up to the first evaluation and class 0 after.
\<close>

definition demo_model :: model where
  "demo_model h b =
     ([Fin 1, Fin 3],
      map (\<lambda>y. if length (filter (\<lambda>e. e = ModelEval) h) \<le> 1 then [0, 1] else [1, 0])
          (snd (snd b)))"

text \<open>
  A classifier on three devices whose per-device losses depend on the batch: 1, 2 and
  three times the number of examples of the batch.
\<close>

definition mean_model :: model where
  "mean_model h b = ([Fin 1, Fin 2, Fin (3 * real (length (snd (snd b))))], [])"

text \<open>
  The checkpoint scenario of the specification, epoch accuracies 0.5, 0.6, 0.55, 0.6
  and 0.7: an evaluation fold of seven examples labelled 1, in a batch of five and a
  batch of two, and a classifier that in epoch \<open>e\<close> predicts class 1 on the first
  \<open>scenario_hits e len\<close> examples of a batch of \<open>len\<close> examples.
\<close>

definition scenario_hits :: "nat \<Rightarrow> nat \<Rightarrow> nat" where
  "scenario_hits e len =
     (if len = 5 then (if e = 1 then 5 else if e = 3 then 3 else if e = 5 then 2 else 1)
      else (if e = 1 then 0 else if e = 3 then 1 else 2))"

definition scenario_model :: model where
  "scenario_model h b =
     ([Fin 1],
      map (\<lambda>i. if i < scenario_hits (length (filter (\<lambda>e. e = ModelEval) h)) (length (snd (snd b)))
                then [0, 1] else [1, 0])
          [0..<length (snd (snd b))])"

definition scenario_args :: args where
  "scenario_args = \<lparr>train_batch_size = 5, eval_batch_size = 5, num_train_epochs = 5\<rparr>"

definition scenario_datasets :: "example list list" where
  "scenario_datasets = [[sample 1], [sample 1], [sample 1],
     [sample 1, sample 1, sample 1, sample 1, sample 1, sample 1, sample 1]]"

section \<open>Properties of the folds\<close>

lemma batches_of_Nil [simp]: "batches_of k [] = []"
  by (simp add: batches_of.simps)

lemma batches_of_0 [simp]: "batches_of 0 xs = []"
  by (simp add: batches_of.simps)

lemma batches_of_step:
  "0 < k \<Longrightarrow> xs \<noteq> [] \<Longrightarrow> batches_of k xs = take k xs # batches_of k (drop k xs)"
  by (subst batches_of.simps) simp

lemma concat_batches_of: "0 < k \<Longrightarrow> concat (batches_of k xs) = xs"
proof (induction k xs rule: batches_of.induct)
  case (1 k xs)
  show ?case
  proof (cases "xs = []")
    case True then show ?thesis by simp
  next
    case False
    with 1 show ?thesis by (simp add: batches_of_step)
  qed
qed

lemma length_batches_of: "0 < k \<Longrightarrow> length (batches_of k xs) = (length xs + k - 1) div k"
proof (induction k xs rule: batches_of.induct)
  case (1 k xs)
  show ?case
  proof (cases "xs = []")
    case True with 1(2) show ?thesis by simp
  next
    case False
    note ne = this
    show ?thesis
    proof (cases "length xs \<le> k")
      case True
      with ne 1(2) have "length xs + k - 1 < 2 * k" "k \<le> length xs + k - 1"
        by (cases xs; simp)+
      then have "(length xs + k - 1) div k = 1"
        by (metis One_nat_def div_nat_eqI mult_2 mult_1 mult.commute mult_Suc)
      with True ne 1 show ?thesis by (simp add: batches_of_step)
    next
      case gt: False
      then have "length xs + k - 1 = (length xs - k + k - 1) + k" using 1(2) by simp
      then have "(length xs + k - 1) div k = Suc ((length xs - k + k - 1) div k)"
        using 1(2) by (metis div_add_self2 less_numeral_extra(3) Suc_eq_plus1)
      with ne 1 show ?thesis by (simp add: batches_of_step)
    qed
  qed
qed

lemma ceil_div_nat:
  assumes "0 < k"
  shows "nat \<lceil>real n / real k\<rceil> = (n + k - 1) div k"
proof -
  define q where "q = (n + k - 1) div k"
  define r where "r = (n + k - 1) mod k"
  have eq: "n + k - 1 = q * k + r" and r: "r < k"
    using assms by (simp_all add: q_def r_def)
  from eq r assms have up: "n \<le> q * k" by arith
  from eq assms have lo: "q * k < n + k" by arith
  from up have "real n \<le> real q * real k"
    by (metis of_nat_mult of_nat_le_iff)
  then have A: "real n / real k \<le> real_of_int (int q)"
    using assms by (simp add: field_simps)
  from lo have "real q * real k < real n + real k"
    by (metis of_nat_mult of_nat_add of_nat_less_iff)
  then have B: "real_of_int (int q) - 1 < real n / real k"
    using assms by (simp add: field_simps)
  have "\<lceil>real n / real k\<rceil> = int q"
    by (rule ceiling_unique[OF B A])
  then show ?thesis by (simp add: q_def)
qed

lemma last_batches_of:
  "0 < k \<Longrightarrow> xs \<noteq> [] \<Longrightarrow>
   length (last (batches_of k xs)) = (if length xs mod k = 0 then k else length xs mod k)"
proof (induction k xs rule: batches_of.induct)
  case (1 k xs)
  show ?case
  proof (cases "drop k xs = []")
    case True
    then have le: "length xs \<le> k" by simp
    from 1(2,3) True have "batches_of k xs = [take k xs]"
      by (simp add: batches_of_step)
    with le 1(2,3) show ?thesis 
      by (cases "length xs = k") (auto simp: min_def)
  next
    case False
    then have gt: "k < length xs" by simp
    from 1(2,3) have st: "batches_of k xs = take k xs # batches_of k (drop k xs)"
      by (simp add: batches_of_step)
    from False 1(2) have ne: "batches_of k (drop k xs) \<noteq> []"
      by (simp add: batches_of_step)
    have "length (last (batches_of k xs)) = length (last (batches_of k (drop k xs)))"
      using st ne by simp
    also have "\<dots> = (if length (drop k xs) mod k = 0 then k else length (drop k xs) mod k)"
      using 1(1) 1(2,3) False by simp
    also have "length (drop k xs) mod k = length xs mod k"
      using gt by (simp add: le_mod_geq)
    finally show ?thesis .
  qed
qed

lemma length_elem_batches_of: "b \<in> set (batches_of k xs) \<Longrightarrow> length b \<le> k \<and> b \<noteq> []"
proof (induction k xs rule: batches_of.induct)
  case (1 k xs)
  show ?case
  proof (cases "k = 0 \<or> xs = []")
    case True with 1(2) show ?thesis by auto
  next
    case False
    with 1(2) have "b = take k xs \<or> b \<in> set (batches_of k (drop k xs))"
      by (simp add: batches_of_step)
    with 1(1) False show ?thesis by auto
  qed
qed

lemma build_loaders_Inr:
  assumes "build_loaders a datasets = Inr dls"
  shows "0 < train_batch_size a \<and> 4 \<le> length datasets \<and>
         dls = map (\<lambda>i. \<lparr>dataset = datasets ! i, batch_size = nat (train_batch_size a)\<rparr>) [0..<4]"
proof -
  have u: "[0..<4] = [0, 1, 2, 3::nat]" by (simp add: upt_rec)
  from assms show ?thesis
    unfolding build_loaders_def u
    by (auto simp: DataLoader_def split: if_splits)
qed

lemma labels_iter_loader:
  "0 < batch_size dl \<Longrightarrow> concat (map (\<lambda>b. snd (snd b)) (iter_loader dl)) = map label (dataset dl)"
proof -
  assume k: "0 < batch_size dl"
  have "concat (map (\<lambda>b. snd (snd b)) (iter_loader dl))
        = concat (map (map label) (batches_of (batch_size dl) (dataset dl)))"
    by (simp add: iter_loader_def collate_def comp_def)
  also have "\<dots> = map label (concat (batches_of (batch_size dl) (dataset dl)))"
    by (simp add: map_concat)
  finally show ?thesis using k by (simp add: concat_batches_of)
qed

lemma length_iter_loader: "0 < batch_size dl \<Longrightarrow> length (iter_loader dl) = len_loader dl"
  by (simp add: iter_loader_def len_loader_def length_batches_of)

text \<open>
  Claim C7. For a dataset of size \<open>N > 0\<close> and a batch size \<open>K > 0\<close>, each of the four
  folds that \<^verbatim>\<open>main\<close> builds has \<open>\<lceil>N / K\<rceil>\<close> batches, which is also what
  \<^verbatim>\<open>len\<close> reports; its last batch has \<open>N mod K\<close> examples, or \<open>K\<close> when
  \<open>K\<close> divides \<open>N\<close>; and the labels of its batches, concatenated in iteration order,
  are the labels of the dataset in their original order.
\<close>

theorem fold_batches_sequential:
  assumes "build_loaders a datasets = Inr dls" and "i < 4" and "datasets ! i \<noteq> []"
  shows "length (iter_loader (dls ! i))
           = nat \<lceil>real (length (datasets ! i)) / real (nat (train_batch_size a))\<rceil>
       \<and> len_loader (dls ! i) = length (iter_loader (dls ! i))
       \<and> length (snd (snd (last (iter_loader (dls ! i)))))
           = (if length (datasets ! i) mod nat (train_batch_size a) = 0
              then nat (train_batch_size a)
              else length (datasets ! i) mod nat (train_batch_size a))
       \<and> concat (map (\<lambda>b. snd (snd b)) (iter_loader (dls ! i))) = map label (datasets ! i)"
proof -
  let ?k = "nat (train_batch_size a)"
  let ?ds = "datasets ! i"
  from build_loaders_Inr [OF assms(1)] assms(2)
  have k: "0 < ?k" and dl: "dls ! i = \<lparr>dataset = ?ds, batch_size = ?k\<rparr>"
    by (simp_all del: upt_Suc)
  have len: "length (iter_loader (dls ! i)) = (length ?ds + ?k - 1) div ?k"
    using k by (simp add: dl iter_loader_def length_batches_of)
  have ne: "batches_of ?k ?ds \<noteq> []"
    using k assms(3) by (simp add: batches_of_step)
  have "last (iter_loader (dls ! i)) = collate (last (batches_of ?k ?ds))"
    using ne by (simp add: dl iter_loader_def last_map)
  then have lst: "length (snd (snd (last (iter_loader (dls ! i)))))
      = (if length ?ds mod ?k = 0 then ?k else length ?ds mod ?k)"
    using k assms(3) by (simp add: collate_def last_batches_of)
  have cat: "concat (map (\<lambda>b. snd (snd b)) (iter_loader (dls ! i))) = map label ?ds"
    using labels_iter_loader [of "dls ! i"] k by (simp add: dl)
  have c: "nat \<lceil>real (length ?ds) / real ?k\<rceil> = (length ?ds + ?k - 1) div ?k"
    by (rule ceil_div_nat [OF k])
  have A: "length (iter_loader (dls ! i)) = nat \<lceil>real (length ?ds) / real ?k\<rceil>"
    using len c by (simp only:)
  have B: "len_loader (dls ! i) = length (iter_loader (dls ! i))"
    using len by (simp add: len_loader_def dl)
  from A B lst cat show ?thesis by blast
qed

lemma demo_build: "build_loaders demo_args demo_datasets = Inr demo_loaders"
  by (simp add: build_loaders_def demo_args_def demo_datasets_def demo_loaders_def DataLoader_def upt_rec)

theorem fold_batches_sequential_witness:
  "build_loaders demo_args demo_datasets = Inr demo_loaders \<and> (3::nat) < 4
   \<and> demo_datasets ! 3 \<noteq> []
   \<and> length (iter_loader (demo_loaders ! 3)) = 3
   \<and> length (snd (snd (last (iter_loader (demo_loaders ! 3))))) = 1
   \<and> concat (map (\<lambda>b. snd (snd b)) (iter_loader (demo_loaders ! 3))) = [1, 0, 0, 1, 1]"
proof -
  have ne: "demo_datasets ! 3 \<noteq> []" by (simp add: demo_datasets_def)
  have "nat \<lceil>real (length (demo_datasets ! 3)) / real (nat (train_batch_size demo_args))\<rceil> = 3"
    by (simp add: demo_datasets_def demo_args_def)
  then show ?thesis
    using fold_batches_sequential [OF demo_build _ ne] demo_build ne
    by (simp add: demo_datasets_def demo_args_def sample_def)
qed

section \<open>Properties of the metric function\<close>

lemma argmax_scan_bound: "bi < i \<Longrightarrow> argmax_scan best bi i xs < i + length xs"
proof (induction xs arbitrary: best bi i)
  case Nil then show ?case by simp
next
  case (Cons x xs)
  have "argmax_scan x i (Suc i) xs < Suc i + length xs" by (rule Cons.IH) simp
  moreover have "argmax_scan best bi (Suc i) xs < Suc i + length xs"
    by (rule Cons.IH) (use Cons.prems in simp)
  ultimately show ?case by simp
qed

lemma argmax_less_length: "row \<noteq> [] \<Longrightarrow> argmax row < length row"
  using argmax_scan_bound [of 0 1] by (cases row) auto

lemma indicator_sum_zip:
  "length ps \<le> length ts \<Longrightarrow>
   sum_list (map (\<lambda>i. if int (ps ! i) = ts ! i \<and> ts ! i = 1 then 1 else 0) [0..<length ps])
     = int (length (filter (\<lambda>(p, t). p = 1 \<and> t = 1) (zip ps ts)))"
proof (induction ps arbitrary: ts)
  case Nil then show ?case by simp
next
  case (Cons p ps)
  then obtain t ts' where ts: "ts = t # ts'" by (cases ts) auto
  have "[0..<length (p # ps)] = 0 # map Suc [0..<length ps]"
    by (simp add: upt_conv_Cons map_Suc_upt del: upt_Suc)
  with Cons ts show ?case by (auto simp: comp_def)
qed

lemma sum_list_binary_nat:
  "\<forall>p \<in> set ps. p \<le> Suc 0 \<Longrightarrow> sum_list ps = length (filter (\<lambda>p. p = 1) ps)"
  by (induction ps) (auto simp: le_Suc_eq)

lemma sum_list_binary_int:
  "\<forall>t \<in> set ts. t = 0 \<or> t = (1::int) \<Longrightarrow> sum_list ts = int (length (filter (\<lambda>t. t = 1) ts))"
  by (induction ts) auto

lemma accuracy_returns:
  assumes "length labels = length logits" "logits \<noteq> []" "\<forall>row \<in> set logits. row \<noteq> []"
  shows "accuracy logits labels =
    Inr (np_true_divide (int (length (filter id (map2 (\<lambda>out l. int out = l) (map argmax logits) labels))))
            (int (length logits)),
         np_true_divide (int (length (filter (\<lambda>(p, t). p = 1 \<and> t = 1) (zip (map argmax logits) labels))))
            (int (sum_list (map argmax logits))),
         np_true_divide (int (length (filter (\<lambda>(p, t). p = 1 \<and> t = 1) (zip (map argmax logits) labels))))
            (sum_list labels))"
proof -
  have "sum_list (map (\<lambda>i. if int (map argmax logits ! i) = labels ! i \<and> labels ! i = 1 then 1 else 0)
          [0..<length (map argmax logits)])
        = int (length (filter (\<lambda>(p, t). p = 1 \<and> t = 1) (zip (map argmax logits) labels)))"
    by (rule indicator_sum_zip) (simp add: assms)
  then show ?thesis
    using assms by (auto simp: accuracy_def eq_broadcast_def Let_def)
qed

lemma argmax_scan_first_max:
  assumes "length pre = i" "bi < i" "pre ! bi = best"
    "\<forall>j<i. pre ! j \<le> best" "\<forall>j<bi. pre ! j < best"
  shows "(\<forall>j<length (pre @ xs). (pre @ xs) ! j \<le> (pre @ xs) ! argmax_scan best bi i xs)
       \<and> (\<forall>j<argmax_scan best bi i xs. (pre @ xs) ! j < (pre @ xs) ! argmax_scan best bi i xs)"
  using assms
proof (induction xs arbitrary: pre i bi best)
  case Nil
  then show ?case by simp
next
  case (Cons x xs)
  show ?case
  proof (cases "best < x")
    case True
    have "(\<forall>j<length ((pre @ [x]) @ xs). ((pre @ [x]) @ xs) ! j \<le> ((pre @ [x]) @ xs) ! argmax_scan x i (Suc i) xs)
       \<and> (\<forall>j<argmax_scan x i (Suc i) xs. ((pre @ [x]) @ xs) ! j < ((pre @ [x]) @ xs) ! argmax_scan x i (Suc i) xs)"
    proof (rule Cons.IH)
      show "length (pre @ [x]) = Suc i" using Cons.prems by simp
      show "i < Suc i" by simp
      show "(pre @ [x]) ! i = x" using Cons.prems by (simp add: nth_append)
      show "\<forall>j<Suc i. (pre @ [x]) ! j \<le> x"
        using Cons.prems True by (auto simp: nth_append less_Suc_eq intro: order_trans less_imp_le)
      show "\<forall>j<i. (pre @ [x]) ! j < x"
        using Cons.prems True by (auto simp: nth_append intro: le_less_trans)
    qed
    with True show ?thesis by simp
  next
    case False
    have "(\<forall>j<length ((pre @ [x]) @ xs). ((pre @ [x]) @ xs) ! j \<le> ((pre @ [x]) @ xs) ! argmax_scan best bi (Suc i) xs)
       \<and> (\<forall>j<argmax_scan best bi (Suc i) xs. ((pre @ [x]) @ xs) ! j < ((pre @ [x]) @ xs) ! argmax_scan best bi (Suc i) xs)"
    proof (rule Cons.IH)
      show "length (pre @ [x]) = Suc i" using Cons.prems by simp
      show "bi < Suc i" using Cons.prems by simp
      show "(pre @ [x]) ! bi = best" using Cons.prems by (simp add: nth_append)
      show "\<forall>j<Suc i. (pre @ [x]) ! j \<le> best"
        using Cons.prems False by (auto simp: nth_append less_Suc_eq)
      show "\<forall>j<bi. (pre @ [x]) ! j < best"
        using Cons.prems by (auto simp: nth_append)
    qed
    with False show ?thesis by simp
  qed
qed

lemma argmax_first_max:
  assumes "row \<noteq> []"
  shows "argmax row < length row
       \<and> (\<forall>j<length row. row ! j \<le> row ! argmax row)
       \<and> (\<forall>j<argmax row. row ! j < row ! argmax row)"
proof -
  from assms obtain x xs where row: "row = x # xs" by (cases row) auto
  have "(\<forall>j<length ([x] @ xs). ([x] @ xs) ! j \<le> ([x] @ xs) ! argmax_scan x 0 1 xs)
      \<and> (\<forall>j<argmax_scan x 0 1 xs. ([x] @ xs) ! j < ([x] @ xs) ! argmax_scan x 0 1 xs)"
    by (rule argmax_scan_first_max) simp_all
  then show ?thesis
    using argmax_less_length [OF assms] by (simp add: row)
qed

lemma argmax_binary: "row \<noteq> [] \<Longrightarrow> length row \<le> 2 \<Longrightarrow> argmax row \<le> 1"
  using argmax_less_length [of row] by simp

text \<open>
  Claim C3, as stated, fails on a score matrix with three columns: on the rows
  \<open>[0, 1, 0]\<close> and \<open>[0, 0, 1]\<close> with the labels \<open>[1, 2]\<close> the predicted classes are 1 and 2,
  the function divides by the sum of the predicted classes (3) and by the sum of the
  labels (3), and returns precision and recall 1/3, where the counts give 1/1.
\<close>

theorem accuracy_multiclass_counterexample:
  "accuracy [[0, 1, 0], [0, 0, 1]] [1, 2] = Inr (Fin 1, Fin (1 / 3), Fin (1 / 3))
   \<and> spec_precision (map argmax [[0, 1, 0], [0, 0, 1]]) [1, 2] = Fin 1
   \<and> spec_recall (map argmax [[0, 1, 0], [0, 0, 1]]) [1, 2] = Fin 1
   \<and> Fin (1 / 3) \<noteq> Fin 1"
  by (simp add: accuracy_def eq_broadcast_def np_true_divide_def spec_precision_def
      spec_recall_def Let_def)

text \<open>
  Claim C3, amended. For a score matrix with at least one row and one column and a label
  vector of the same length, \<^verbatim>\<open>accuracy\<close> returns. When every predicted class is 0 or 1
  (as it is with at most two columns, \<open>argmax_binary\<close>), the precision is the number of
  examples with predicted class 1 and true label 1 divided by the number with predicted
  class 1; when every label is 0 or 1, the recall is that number divided by the number of
  examples with true label 1. Both quotients are numpy divisions (nan for 0/0).
\<close>

theorem accuracy_precision_recall:
  assumes "length labels = length logits" and "logits \<noteq> []"
    and "\<forall>row \<in> set logits. row \<noteq> []"
  shows "\<exists>a p r. accuracy logits labels = Inr (a, p, r)
     \<and> ((\<forall>row \<in> set logits. argmax row \<le> 1) \<longrightarrow> p = spec_precision (map argmax logits) labels)
     \<and> ((\<forall>y \<in> set labels. y = 0 \<or> y = 1) \<longrightarrow> r = spec_recall (map argmax logits) labels)"
proof -
  have P: "(\<forall>row \<in> set logits. argmax row \<le> 1) \<Longrightarrow>
      int (sum_list (map argmax logits)) = int (length (filter (\<lambda>p. p = 1) (map argmax logits)))"
    using sum_list_binary_nat [of "map argmax logits"] by simp
  have R: "(\<forall>y \<in> set labels. y = 0 \<or> y = 1) \<Longrightarrow>
      sum_list labels = int (length (filter (\<lambda>t. t = 1) labels))"
    by (rule sum_list_binary_int)
  show ?thesis
    unfolding accuracy_returns [OF assms] spec_precision_def spec_recall_def
    using P R by auto
qed

theorem accuracy_precision_recall_witness:
  "length [1, 0, 1 :: int] = length [[0, 1], [1, 0], [2, 2 :: real]]
   \<and> [[0, 1], [1, 0], [2, 2 :: real]] \<noteq> []
   \<and> [] \<notin> set [[0, 1], [1, 0], [2, 2 :: real]]
   \<and> accuracy [[0, 1], [1, 0], [2, 2]] [1, 0, 1] = Inr (Fin (2 / 3), Fin 1, Fin (1 / 2))
   \<and> spec_precision (map argmax [[0, 1], [1, 0], [2, 2]]) [1, 0, 1] = Fin 1
   \<and> spec_recall (map argmax [[0, 1], [1, 0], [2, 2]]) [1, 0, 1] = Fin (1 / 2)"
proof -
  let ?L = "[[0, 1], [1, 0], [2, 2 :: real]]"
  let ?Y = "[1, 0, 1 :: int]"
  have h: "length ?Y = length ?L" "?L \<noteq> []" "\<forall>row \<in> set ?L. row \<noteq> []" by simp_all
  from accuracy_precision_recall [OF h] obtain a p r where
    ret: "accuracy ?L ?Y = Inr (a, p, r)"
    and P: "(\<forall>row \<in> set ?L. argmax row \<le> 1) \<longrightarrow> p = spec_precision (map argmax ?L) ?Y"
    and R: "(\<forall>y \<in> set ?Y. y = 0 \<or> y = 1) \<longrightarrow> r = spec_recall (map argmax ?L) ?Y"
    by blast
  from P have p: "p = spec_precision (map argmax ?L) ?Y" by simp
  from R have r: "r = spec_recall (map argmax ?L) ?Y" by simp
  have sp: "spec_precision (map argmax ?L) ?Y = Fin 1"
    by (simp add: spec_precision_def np_true_divide_def)
  have sr: "spec_recall (map argmax ?L) ?Y = Fin (1 / 2)"
    by (simp add: spec_recall_def np_true_divide_def)
  from ret have a: "a = Fin (2 / 3)"
    by (simp add: accuracy_def eq_broadcast_def np_true_divide_def Let_def)
  from ret a p r sp sr show ?thesis by simp
qed

lemma both_empty_left:
  assumes "\<forall>p \<in> set ps. p \<noteq> (1::nat)"
  shows "filter (\<lambda>(p, t). p = 1 \<and> t = (1::int)) (zip ps ts) = []"
proof -
  have "\<And>p t. (p, t) \<in> set (zip ps ts) \<Longrightarrow> p \<noteq> 1"
    using assms by (blast dest: set_zip_leftD)
  then show ?thesis
    unfolding filter_empty_conv by blast
qed

lemma both_empty_right:
  assumes "\<forall>t \<in> set ts. t \<noteq> (1::int)"
  shows "filter (\<lambda>(p, t). p = (1::nat) \<and> t = 1) (zip ps ts) = []"
proof -
  have "\<And>p t. (p, t) \<in> set (zip ps ts) \<Longrightarrow> t \<noteq> 1"
    using assms by (blast dest: set_zip_rightD)
  then show ?thesis
    unfolding filter_empty_conv by blast
qed

lemma sum_list_nat_0: "sum_list ps = (0::nat) \<Longrightarrow> \<forall>p \<in> set ps. p \<noteq> 1"
  by (induction ps) simp_all

lemma no_positive_nat: "\<forall>p \<in> set ps. p \<le> 1 \<Longrightarrow> \<forall>p \<in> set ps. p \<noteq> 1 \<Longrightarrow> sum_list ps = (0::nat)"
  by (induction ps) simp_all

lemma no_positive_int:
  "\<forall>t \<in> set ts. t = 0 \<or> t = 1 \<Longrightarrow> \<forall>t \<in> set ts. t \<noteq> 1 \<Longrightarrow> sum_list ts = (0::int)"
  by (induction ts) simp_all

lemma np_true_divide_0_0 [simp]: "np_true_divide 0 0 = NaN"
  by (simp add: np_true_divide_def)

lemma np_true_divide_by_0: "0 \<le> a \<Longrightarrow> np_true_divide a 0 = NaN \<or> np_true_divide a 0 = PosInf"
  by (simp add: np_true_divide_def)

text \<open>
  What the function returns on a zero denominator, on a score matrix with at least one
  row and one column and a label vector of the same length: when the sum of the predicted
  classes is zero the precision is nan; when the sum of the labels is zero the recall is
  nan or an infinity; with classes 0 and 1 only, no example predicted 1 gives the
  precision nan, and no example labelled 1 gives the recall nan.
\<close>

lemma accuracy_zero_sums:
  assumes "length labels = length logits" and "logits \<noteq> []"
    and "\<forall>row \<in> set logits. row \<noteq> []"
  shows "\<exists>a p r. accuracy logits labels = Inr (a, p, r)
     \<and> (sum_list (map argmax logits) = 0 \<longrightarrow> p = NaN)
     \<and> (sum_list labels = 0 \<longrightarrow> r = NaN \<or> r = PosInf)
     \<and> ((\<forall>row \<in> set logits. argmax row \<le> 1) \<and> (\<forall>row \<in> set logits. argmax row \<noteq> 1) \<longrightarrow> p = NaN)
     \<and> ((\<forall>y \<in> set labels. y = 0 \<or> y = 1) \<and> (\<forall>y \<in> set labels. y \<noteq> 1) \<longrightarrow> r = NaN)"
proof -
  let ?outs = "map argmax logits"
  let ?both = "int (length (filter (\<lambda>(p, t). p = 1 \<and> t = 1) (zip ?outs labels)))"
  let ?p = "np_true_divide ?both (int (sum_list ?outs))"
  let ?r = "np_true_divide ?both (sum_list labels)"
  have p0: "?p = NaN" if "sum_list ?outs = 0"
  proof -
    from that have "\<forall>p \<in> set ?outs. p \<noteq> 1" by (rule sum_list_nat_0)
    then have b: "?both = 0" by (simp only: both_empty_left list.size int_ops)
    show ?thesis unfolding b that by (simp only: of_nat_0 np_true_divide_0_0)
  qed
  have r0: "?r = NaN \<or> ?r = PosInf" if "sum_list labels = 0"
    unfolding that by (rule np_true_divide_by_0) simp
  have p1: "?p = NaN"
    if "(\<forall>row \<in> set logits. argmax row \<le> 1) \<and> (\<forall>row \<in> set logits. argmax row \<noteq> 1)"
  proof -
    from that have "sum_list ?outs = 0" by (intro no_positive_nat) simp_all
    then show ?thesis by (rule p0)
  qed
  have r1: "?r = NaN"
    if "(\<forall>y \<in> set labels. y = 0 \<or> y = 1) \<and> (\<forall>y \<in> set labels. y \<noteq> 1)"
  proof -
    from that have s: "sum_list labels = 0" by (intro no_positive_int) blast+
    from that have "\<forall>t \<in> set labels. t \<noteq> 1" by blast
    then have b: "?both = 0" by (simp only: both_empty_right list.size int_ops)
    show ?thesis unfolding b s by (rule np_true_divide_0_0)
  qed
  let ?a = "np_true_divide (int (length (filter id
      (map2 (\<lambda>out l. int out = l) ?outs labels)))) (int (length logits))"
  show ?thesis
  proof (intro exI conjI impI)
    show "accuracy logits labels = Inr (?a, ?p, ?r)"
      by (rule accuracy_returns [OF assms])
    show "?p = NaN" if "sum_list ?outs = 0"
      using that by (rule p0)
    show "?r = NaN \<or> ?r = PosInf" if "sum_list labels = 0"
      using that by (rule r0)
    show "?p = NaN"
      if "(\<forall>row \<in> set logits. argmax row \<le> 1) \<and> (\<forall>row \<in> set logits. argmax row \<noteq> 1)"
      using that by (rule p1)
    show "?r = NaN"
      if "(\<forall>y \<in> set labels. y = 0 \<or> y = 1) \<and> (\<forall>y \<in> set labels. y \<noteq> 1)"
      using that by (rule r1)
  qed
qed

text \<open>
  Claim C4, as stated, fails when a class other than 0 and 1 occurs. On the rows
  \<open>[0, 0, 1]\<close> and \<open>[1, 0, 0]\<close> the predicted classes are 2 and 0: no example is predicted
  1, the specification's precision is 0/0, and the function returns the precision
  0/2 = 0. With the labels \<open>[2, 0]\<close> no example is labelled 1, the specification's recall
  is 0/0, and the function returns the recall 0/2 = 0.
\<close>

theorem accuracy_no_positive_counterexample:
  "accuracy [[0, 0, 1], [1, 0, 0]] [1, 0] = Inr (Fin (1 / 2), Fin 0, Fin 0)
   \<and> 1 \<notin> set (map argmax [[0, 0, 1], [1, 0, 0]])
   \<and> spec_precision (map argmax [[0, 0, 1], [1, 0, 0]]) [1, 0] = NaN
   \<and> accuracy [[0, 1, 0], [1, 0, 0]] [2, 0] = Inr (Fin (1 / 2), Fin 0, Fin 0)
   \<and> 1 \<notin> set [2, 0 :: int]
   \<and> spec_recall (map argmax [[0, 1, 0], [1, 0, 0]]) [2, 0] = NaN
   \<and> Fin 0 \<noteq> NaN"
  by (simp add: accuracy_def eq_broadcast_def np_true_divide_def spec_precision_def
      spec_recall_def Let_def)

lemma accuracy_no_rows: "accuracy [] [] = Inl ZeroDivisionError"
  by (simp add: accuracy_def eq_broadcast_def)

text \<open>
  Claim C4, amended. On a score matrix with at least one column and a label vector of the
  same length: with no example at all \<^verbatim>\<open>accuracy\<close> raises a division by zero; otherwise
  it returns, and when every predicted class is 0 or 1 and no example is predicted 1 the
  precision is nan, and when every label is 0 or 1 and no example is labelled 1 the recall
  is nan. Neither is replaced by zero or another default.
\<close>

theorem accuracy_no_positive_nan:
  assumes "length labels = length logits" and "\<forall>row \<in> set logits. row \<noteq> []"
  shows "(logits = [] \<longrightarrow> accuracy logits labels = Inl ZeroDivisionError)
     \<and> (logits \<noteq> [] \<longrightarrow>
          (\<exists>a p r. accuracy logits labels = Inr (a, p, r)
             \<and> ((\<forall>row \<in> set logits. argmax row \<le> 1) \<and> (\<forall>row \<in> set logits. argmax row \<noteq> 1)
                  \<longrightarrow> p = NaN)
             \<and> ((\<forall>y \<in> set labels. y = 0 \<or> y = 1) \<and> (\<forall>y \<in> set labels. y \<noteq> 1)
                  \<longrightarrow> r = NaN)))"
proof (intro conjI impI)
  assume "logits = []"
  with assms(1) show "accuracy logits labels = Inl ZeroDivisionError"
    by (simp add: accuracy_no_rows)
next
  assume ne: "logits \<noteq> []"
  from accuracy_zero_sums [OF assms(1) ne assms(2)] obtain a p r where
    ret: "accuracy logits labels = Inr (a, p, r)"
    and P: "(\<forall>row \<in> set logits. argmax row \<le> 1) \<and> (\<forall>row \<in> set logits. argmax row \<noteq> 1)
                  \<longrightarrow> p = NaN"
    and R: "(\<forall>y \<in> set labels. y = 0 \<or> y = 1) \<and> (\<forall>y \<in> set labels. y \<noteq> 1)
                  \<longrightarrow> r = NaN"
    by (elim exE conjE) (rule that)
  show "\<exists>a p r. accuracy logits labels = Inr (a, p, r)
             \<and> ((\<forall>row \<in> set logits. argmax row \<le> 1) \<and> (\<forall>row \<in> set logits. argmax row \<noteq> 1)
                  \<longrightarrow> p = NaN)
             \<and> ((\<forall>y \<in> set labels. y = 0 \<or> y = 1) \<and> (\<forall>y \<in> set labels. y \<noteq> 1)
                  \<longrightarrow> r = NaN)"
    using ret P R by (intro exI [of _ a] exI [of _ p] exI [of _ r] conjI)
qed

theorem accuracy_no_positive_nan_witness:
  "length [0, 0 :: int] = length [[1, 0], [2, 1 :: real]]
   \<and> [] \<notin> set [[1, 0], [2, 1 :: real]]
   \<and> 1 \<notin> set (map argmax [[1, 0], [2, 1]])
   \<and> 1 \<notin> set [0, 0 :: int]
   \<and> accuracy [[1, 0], [2, 1]] [0, 0] = Inr (Fin 1, NaN, NaN)
   \<and> accuracy [] [] = Inl ZeroDivisionError"
proof -
  let ?L = "[[1, 0], [2, 1 :: real]]"
  let ?Y = "[0, 0 :: int]"
  have h: "length ?Y = length ?L" "\<forall>row \<in> set ?L. row \<noteq> []" by simp_all
  from accuracy_no_positive_nan [OF h] obtain a p r where
    ret: "accuracy ?L ?Y = Inr (a, p, r)"
    and P: "(\<forall>row \<in> set ?L. argmax row \<le> 1) \<and> (\<forall>row \<in> set ?L. argmax row \<noteq> 1) \<longrightarrow> p = NaN"
    and R: "(\<forall>y \<in> set ?Y. y = 0 \<or> y = 1) \<and> (\<forall>y \<in> set ?Y. y \<noteq> 1) \<longrightarrow> r = NaN"
    by auto
  from P have p: "p = NaN" by simp
  from R have r: "r = NaN" by simp
  from ret have a: "a = Fin 1"
    by (simp add: accuracy_def eq_broadcast_def np_true_divide_def Let_def)
  have e: "accuracy [] [] = Inl ZeroDivisionError"
    using accuracy_no_positive_nan [of "[]" "[]"] by simp
  from ret a p r e show ?thesis by simp
qed

section \<open>Evaluating the small run\<close>

lemma batches_of_Cons [simp]:
  "0 < k \<Longrightarrow> batches_of k (x # xs) = take k (x # xs) # batches_of k (drop k (x # xs))"
  by (rule batches_of_step) simp_all

lemma demo_iter:
  "iter_loader (demo_loaders ! 0) = [collate [sample 0, sample 1]]"
  "iter_loader (demo_loaders ! 1) = [collate [sample 1]]"
  "iter_loader (demo_loaders ! 2) = [collate [sample 0, sample 0], collate [sample 1]]"
  "iter_loader (demo_loaders ! 3) = [collate [sample 1, sample 0], collate [sample 0, sample 1], collate [sample 1]]"
  by (simp_all add: iter_loader_def demo_loaders_def demo_datasets_def)

lemma label_sample [simp]: "label (sample y) = y"
  by (simp add: sample_def)

lemmas run_defs = main_def build_loaders_def DataLoader_def upt_rec epoch_def evaluate_def
  eval_step_def train_step_def iter_loader_def len_loader_def collate_def
  tensor_mean_def np_sum_def item_def accuracy_def eq_broadcast_def
  np_true_divide_def py_truediv_def checkpoint_decision_def Let_def

lemma epochs_numeral:
  "epochs M n dls spe (numeral k) st =
     (case epoch M n dls spe st of
        Inl e \<Rightarrow> Inl e
      | Inr st' \<Rightarrow> epochs M n dls spe (pred_numeral k) st')"
  by (simp add: numeral_eq_Suc)

section \<open>Properties of the training loop\<close>

lemma train_batches_append:
  "train_batches M n s (xs @ ys) =
     (case train_batches M n s xs of Inl e \<Rightarrow> Inl e | Inr s' \<Rightarrow> train_batches M n s' ys)"
  by (induction xs arbitrary: s) (auto split: sum.splits)

lemma train_folds_batches:
  "train_folds M n s dls = train_batches M n s (concat (map iter_loader dls))"
  by (induction dls arbitrary: s) (auto simp: train_batches_append split: sum.splits)

lemma train_step_Inr:
  assumes "train_step M n (h, acc) b = Inr s'"
  shows "\<exists>v. (if 1 < n then [tensor_mean (fst (M h b))] else fst (M h b)) = [v]
           \<and> s' = (h @ step_events b [v], np_add acc v)"
  using assms
  by (auto simp: train_step_def item_def step_events_def Let_def split: list.splits if_splits)

lemma steps_trace_Cons:
  "steps_trace (b # bs) (l # ls) = step_events b l @ steps_trace bs ls"
  by (simp add: steps_trace_def)

lemma train_batches_trace:
  assumes "train_batches M n (h, acc) bs = Inr (h', acc')"
  shows "\<exists>vs. length vs = length bs
      \<and> h' = h @ steps_trace bs (map (\<lambda>v. [v]) vs)
      \<and> acc' = foldl np_add acc vs
      \<and> (\<forall>i<length bs.
            (if 1 < n then [tensor_mean (fst (M (h @ steps_trace (take i bs) (map (\<lambda>v. [v]) (take i vs))) (bs ! i)))]
             else fst (M (h @ steps_trace (take i bs) (map (\<lambda>v. [v]) (take i vs))) (bs ! i))) = [vs ! i])"
  using assms
proof (induction bs arbitrary: h acc)
  case Nil
  then show ?case by (simp add: steps_trace_def)
next
  case (Cons b bs)
  from Cons.prems obtain s1 where s1: "train_step M n (h, acc) b = Inr s1"
    and rest: "train_batches M n s1 bs = Inr (h', acc')"
    by (auto split: sum.splits)
  from train_step_Inr [OF s1] obtain v where
    v: "(if 1 < n then [tensor_mean (fst (M h b))] else fst (M h b)) = [v]"
    and s1_eq: "s1 = (h @ step_events b [v], np_add acc v)" by blast
  from Cons.IH [OF rest [unfolded s1_eq]] obtain vs where
    len: "length vs = length bs"
    and h': "h' = (h @ step_events b [v]) @ steps_trace bs (map (\<lambda>v. [v]) vs)"
    and acc': "acc' = foldl np_add (np_add acc v) vs"
    and each: "\<forall>i<length bs.
        (if 1 < n then [tensor_mean (fst (M ((h @ step_events b [v]) @ steps_trace (take i bs) (map (\<lambda>v. [v]) (take i vs))) (bs ! i)))]
         else fst (M ((h @ step_events b [v]) @ steps_trace (take i bs) (map (\<lambda>v. [v]) (take i vs))) (bs ! i))) = [vs ! i]"
    by blast
  show ?case
  proof (intro exI [of _ "v # vs"] conjI allI impI)
    show "length (v # vs) = length (b # bs)" using len by simp
    show "h' = h @ steps_trace (b # bs) (map (\<lambda>v. [v]) (v # vs))"
      using h' by (simp add: steps_trace_Cons)
    show "acc' = foldl np_add acc (v # vs)" using acc' by simp
  next
    fix i assume i: "i < length (b # bs)"
    show "(if 1 < n
           then [tensor_mean (fst (M (h @ steps_trace (take i (b # bs)) (map (\<lambda>v. [v]) (take i (v # vs)))) ((b # bs) ! i)))]
           else fst (M (h @ steps_trace (take i (b # bs)) (map (\<lambda>v. [v]) (take i (v # vs)))) ((b # bs) ! i))) = [(v # vs) ! i]"
    proof (cases i)
      case 0
      with v show ?thesis by (auto simp: steps_trace_def split: if_splits)
    next
      case (Suc j)
      with i have j: "j < length bs" by simp
      from each j have
        "(if 1 < n then [tensor_mean (fst (M ((h @ step_events b [v]) @ steps_trace (take j bs) (map (\<lambda>v. [v]) (take j vs))) (bs ! j)))]
         else fst (M ((h @ step_events b [v]) @ steps_trace (take j bs) (map (\<lambda>v. [v]) (take j vs))) (bs ! j))) = [vs ! j]"
        by blast
      then show ?thesis
        unfolding Suc by (simp only: take_Suc_Cons list.map steps_trace_Cons nth_Cons_Suc append_assoc)
    qed
  qed
qed

lemma foldl_np_add_Fin: "foldl np_add (Fin s) (map Fin xs) = Fin (s + sum_list xs)"
  by (induction xs arbitrary: s) (simp_all add: add.assoc)

lemma tensor_mean_Fin:
  "xs \<noteq> [] \<Longrightarrow> tensor_mean (map Fin xs) = Fin (sum_list xs / real (length xs))"
  by (simp add: tensor_mean_def np_sum_def foldl_np_add_Fin)

text \<open>
  Claim C9. In every training phase that completes, the history grows by exactly one
  block per batch of the training folds, in fold and batch order, and each block is, in
  this order: the forward pass on the batch, the backward pass, the clipping of the
  gradient norm to 1.0, the optimizer step, the scheduler step, the reset of the
  gradients. With more than one device the loss on which the backward pass is called is
  the arithmetic mean of the loss tensor that the forward pass returned: the sum of its
  elements divided by their number (for finite elements \<open>xs\<close>, the number
  \<open>sum_list xs / length xs\<close>). Otherwise it is that tensor itself, which then has one
  element. The running training loss is increased by it.
\<close>

theorem training_steps_in_order:
  assumes "train_folds M n_gpu (h, acc) dls = Inr (h', acc')"
  shows "\<exists>vs outs. length vs = length (concat (map iter_loader dls))
      \<and> length outs = length (concat (map iter_loader dls))
      \<and> h' = h @ steps_trace (concat (map iter_loader dls)) (map (\<lambda>v. [v]) vs)
      \<and> acc' = foldl np_add acc vs
      \<and> (\<forall>i<length (concat (map iter_loader dls)).
            outs ! i = fst (M (h @ steps_trace (take i (concat (map iter_loader dls)))
                                     (map (\<lambda>v. [v]) (take i vs)))
                              (concat (map iter_loader dls) ! i))
          \<and> (if 1 < n_gpu
              then vs ! i = (if outs ! i = [] then NaN
                             else np_div_count (np_sum (outs ! i)) (length (outs ! i)))
                 \<and> (\<forall>xs. xs \<noteq> [] \<and> outs ! i = map Fin xs
                       \<longrightarrow> vs ! i = Fin (sum_list xs / real (length xs)))
              else outs ! i = [vs ! i]))"
proof -
  let ?bs = "concat (map iter_loader dls)"
  from assms have "train_batches M n_gpu (h, acc) ?bs = Inr (h', acc')"
    by (simp add: train_folds_batches)
  from train_batches_trace [OF this] obtain vs where
    len: "length vs = length ?bs"
    and h': "h' = h @ steps_trace ?bs (map (\<lambda>v. [v]) vs)"
    and acc': "acc' = foldl np_add acc vs"
    and each: "\<forall>i<length ?bs.
       (if 1 < n_gpu
        then [tensor_mean (fst (M (h @ steps_trace (take i ?bs) (map (\<lambda>v. [v]) (take i vs))) (?bs ! i)))]
        else fst (M (h @ steps_trace (take i ?bs) (map (\<lambda>v. [v]) (take i vs))) (?bs ! i))) = [vs ! i]"
    by blast
  let ?out = "\<lambda>i. fst (M (h @ steps_trace (take i ?bs) (map (\<lambda>v. [v]) (take i vs))) (?bs ! i))"
  let ?outs = "map ?out [0..<length ?bs]"
  show ?thesis
  proof (intro exI [of _ vs] exI [of _ ?outs] conjI allI impI)
    show "length vs = length ?bs" by (rule len)
    show "length ?outs = length ?bs" by simp
    show "h' = h @ steps_trace ?bs (map (\<lambda>v. [v]) vs)" by (rule h')
    show "acc' = foldl np_add acc vs" by (rule acc')
  next
    fix i assume i: "i < length ?bs"
    then show "?outs ! i = ?out i" by simp
  next
    fix i assume i: "i < length ?bs"
    then have o: "?outs ! i = ?out i" by simp
    from each i have e: "(if 1 < n_gpu then [tensor_mean (?out i)] else ?out i) = [vs ! i]"
      by blast
    show "if 1 < n_gpu
          then vs ! i = (if ?outs ! i = [] then NaN
                         else np_div_count (np_sum (?outs ! i)) (length (?outs ! i)))
             \<and> (\<forall>xs. xs \<noteq> [] \<and> ?outs ! i = map Fin xs
                   \<longrightarrow> vs ! i = Fin (sum_list xs / real (length xs)))
          else ?outs ! i = [vs ! i]"
    proof (cases "1 < n_gpu")
      case True
      with e have v: "vs ! i = tensor_mean (?out i)" by simp
      have "\<forall>xs. xs \<noteq> [] \<and> ?out i = map Fin xs \<longrightarrow> vs ! i = Fin (sum_list xs / real (length xs))"
        using v by (auto simp: tensor_mean_Fin)
      moreover have "vs ! i = (if ?out i = [] then NaN
                         else np_div_count (np_sum (?out i)) (length (?out i)))"
        using v by (simp add: tensor_mean_def)
      ultimately show ?thesis unfolding o using True by simp
    next
      case False
      with e show ?thesis unfolding o by simp
    qed
  qed
qed

lemma mean_train:
  "train_folds mean_model 3 ([ModelTrain], Fin 0) (take 3 demo_loaders) =
     Inr ([ModelTrain,
           Forward (collate [sample 0, sample 1]), Backward [Fin 3], ClipGradNorm 1,
           OptimizerStep, SchedulerStep, ZeroGrad,
           Forward (collate [sample 1]), Backward [Fin 2], ClipGradNorm 1,
           OptimizerStep, SchedulerStep, ZeroGrad,
           Forward (collate [sample 0, sample 0]), Backward [Fin 3], ClipGradNorm 1,
           OptimizerStep, SchedulerStep, ZeroGrad,
           Forward (collate [sample 1]), Backward [Fin 2], ClipGradNorm 1,
           OptimizerStep, SchedulerStep, ZeroGrad],
          Fin 10)"
  by (simp add: demo_loaders_def demo_datasets_def iter_loader_def train_step_def mean_model_def
      tensor_mean_def np_sum_def item_def collate_def Let_def)

theorem training_steps_in_order_witness:
  "train_folds mean_model 3 ([ModelTrain], Fin 0) (take 3 demo_loaders) =
     Inr ([ModelTrain] @ steps_trace
            [collate [sample 0, sample 1], collate [sample 1], collate [sample 0, sample 0],
             collate [sample 1]]
            [[Fin ((1 + 2 + 6) / 3)], [Fin ((1 + 2 + 3) / 3)], [Fin ((1 + 2 + 6) / 3)],
             [Fin ((1 + 2 + 3) / 3)]],
          Fin 10)
   \<and> map (fst \<circ> mean_model []) (concat (map iter_loader (take 3 demo_loaders)))
       = [[Fin 1, Fin 2, Fin 6], [Fin 1, Fin 2, Fin 3], [Fin 1, Fin 2, Fin 6], [Fin 1, Fin 2, Fin 3]]
   \<and> length (concat (map iter_loader (take 3 demo_loaders))) = 4"
proof -
  from training_steps_in_order [OF mean_train]
  obtain vs where "length vs = length (concat (map iter_loader (take 3 demo_loaders)))"
    and "Fin 10 = foldl np_add (Fin 0) vs" by blast
  moreover have "length (concat (map iter_loader (take 3 demo_loaders))) = 4"
    by (simp add: demo_loaders_def demo_datasets_def iter_loader_def)
  ultimately show ?thesis
    using mean_train
    by (simp add: steps_trace_def step_events_def demo_loaders_def demo_datasets_def
        iter_loader_def mean_model_def collate_def)
qed

text \<open>
  Claim C2. All four loaders are built with \<^verbatim>\<open>args.train_batch_size\<close>; the option
  \<^verbatim>\<open>eval_batch_size\<close> is never read. With a training batch size of 4 and an
  evaluation batch size of 2, the evaluation fold of five examples comes in batches of
  4 and 1 examples.
\<close>

theorem eval_fold_uses_train_batch_size:
  "build_loaders \<lparr>train_batch_size = 4, eval_batch_size = 2, num_train_epochs = 1\<rparr> demo_datasets
     = Inr (map (\<lambda>ds. \<lparr>dataset = ds, batch_size = 4\<rparr>) demo_datasets)
   \<and> map (\<lambda>b. length (snd (snd b)))
         (iter_loader (map (\<lambda>ds. \<lparr>dataset = ds, batch_size = 4\<rparr>) demo_datasets ! 3)) = [4, 1]"
  by (simp add: build_loaders_def DataLoader_def upt_rec demo_datasets_def iter_loader_def collate_def)

lemma build_loaders_ignores_eval_batch_size:
  "build_loaders (a\<lparr>eval_batch_size := e\<rparr>) datasets = build_loaders a datasets"
  by (simp add: build_loaders_def)

section \<open>Properties of the evaluation loop\<close>

lemma accuracy_nonneg:
  assumes "accuracy logits labels = Inr (a, p, r)"
  shows "\<exists>x. a = Fin x \<and> 0 \<le> x"
  using assms
  by (auto simp: accuracy_def Let_def np_true_divide_def split: if_splits option.splits)

lemma eval_step_Inr:
  assumes "eval_step M (h, a) b = Inr s'"
  shows "\<exists>ac p r. accuracy (snd (M h b)) (snd (snd b)) = Inr (ac, p, r)
     \<and> s' = (h @ [Forward b],
          \<lparr>sum_loss = np_add (sum_loss a) (tensor_mean (fst (M h b))),
           sum_accuracy = np_add (sum_accuracy a) ac,
           sum_precision = np_add (sum_precision a) p,
           sum_recall = np_add (sum_recall a) r,
           eval_examples = eval_examples a + length (fst b)\<rparr>)"
  using assms by (auto simp: eval_step_def Let_def split: sum.splits)

lemma eval_batches_sums:
  assumes "eval_batches M (h, a) bs = Inr (h', a')"
  shows "\<exists>vals. length vals = length bs
      \<and> h' = h @ map Forward bs
      \<and> sum_loss a' = foldl np_add (sum_loss a) (map fst vals)
      \<and> sum_accuracy a' = foldl np_add (sum_accuracy a) (map (\<lambda>v. fst (snd v)) vals)
      \<and> sum_precision a' = foldl np_add (sum_precision a) (map (\<lambda>v. fst (snd (snd v))) vals)
      \<and> sum_recall a' = foldl np_add (sum_recall a) (map (\<lambda>v. snd (snd (snd v))) vals)
      \<and> eval_examples a' = eval_examples a + sum_list (map (\<lambda>b. length (fst b)) bs)
      \<and> (\<forall>i<length bs.
            fst (vals ! i) = tensor_mean (fst (M (h @ map Forward (take i bs)) (bs ! i)))
          \<and> accuracy (snd (M (h @ map Forward (take i bs)) (bs ! i))) (snd (snd (bs ! i)))
              = Inr (snd (vals ! i)))"
  using assms
proof (induction bs arbitrary: h a)
  case Nil
  then show ?case by simp
next
  case (Cons b bs)
  from Cons.prems obtain s1 where s1: "eval_step M (h, a) b = Inr s1"
    and rest: "eval_batches M s1 bs = Inr (h', a')"
    by (auto split: sum.splits)
  from eval_step_Inr [OF s1] obtain ac p r where
    acc: "accuracy (snd (M h b)) (snd (snd b)) = Inr (ac, p, r)"
    and s1_eq: "s1 = (h @ [Forward b],
          \<lparr>sum_loss = np_add (sum_loss a) (tensor_mean (fst (M h b))),
           sum_accuracy = np_add (sum_accuracy a) ac,
           sum_precision = np_add (sum_precision a) p,
           sum_recall = np_add (sum_recall a) r,
           eval_examples = eval_examples a + length (fst b)\<rparr>)"
    by blast
  let ?a1 = "\<lparr>sum_loss = np_add (sum_loss a) (tensor_mean (fst (M h b))),
           sum_accuracy = np_add (sum_accuracy a) ac,
           sum_precision = np_add (sum_precision a) p,
           sum_recall = np_add (sum_recall a) r,
           eval_examples = eval_examples a + length (fst b)\<rparr>"
  from Cons.IH [OF rest [unfolded s1_eq]] obtain vals where
    len: "length vals = length bs"
    and h': "h' = (h @ [Forward b]) @ map Forward bs"
    and sl: "sum_loss a' = foldl np_add (sum_loss ?a1) (map fst vals)"
    and sa: "sum_accuracy a' = foldl np_add (sum_accuracy ?a1) (map (\<lambda>v. fst (snd v)) vals)"
    and sp: "sum_precision a' = foldl np_add (sum_precision ?a1) (map (\<lambda>v. fst (snd (snd v))) vals)"
    and sr: "sum_recall a' = foldl np_add (sum_recall ?a1) (map (\<lambda>v. snd (snd (snd v))) vals)"
    and ex: "eval_examples a' = eval_examples ?a1 + sum_list (map (\<lambda>b. length (fst b)) bs)"
    and each: "\<forall>i<length bs.
            fst (vals ! i) = tensor_mean (fst (M ((h @ [Forward b]) @ map Forward (take i bs)) (bs ! i)))
          \<and> accuracy (snd (M ((h @ [Forward b]) @ map Forward (take i bs)) (bs ! i))) (snd (snd (bs ! i)))
              = Inr (snd (vals ! i))"
    by blast
  let ?v = "(tensor_mean (fst (M h b)), ac, p, r)"
  show ?case
  proof (intro exI [of _ "?v # vals"] conjI allI impI)
    show "length (?v # vals) = length (b # bs)" using len by simp
    show "h' = h @ map Forward (b # bs)" using h' by simp
    show "sum_loss a' = foldl np_add (sum_loss a) (map fst (?v # vals))" using sl by simp
    show "sum_accuracy a' = foldl np_add (sum_accuracy a) (map (\<lambda>v. fst (snd v)) (?v # vals))"
      using sa by simp
    show "sum_precision a' = foldl np_add (sum_precision a) (map (\<lambda>v. fst (snd (snd v))) (?v # vals))"
      using sp by simp
    show "sum_recall a' = foldl np_add (sum_recall a) (map (\<lambda>v. snd (snd (snd v))) (?v # vals))"
      using sr by simp
    show "eval_examples a' = eval_examples a + sum_list (map (\<lambda>b. length (fst b)) (b # bs))"
      using ex by simp
  next
    fix i assume i: "i < length (b # bs)"
    show "fst ((?v # vals) ! i) = tensor_mean (fst (M (h @ map Forward (take i (b # bs))) ((b # bs) ! i)))"
    proof (cases i)
      case 0 then show ?thesis by simp
    next
      case (Suc j)
      with i each show ?thesis by simp
    qed
  next
    fix i assume i: "i < length (b # bs)"
    show "accuracy (snd (M (h @ map Forward (take i (b # bs))) ((b # bs) ! i))) (snd (snd ((b # bs) ! i)))
            = Inr (snd ((?v # vals) ! i))"
    proof (cases i)
      case 0 with acc show ?thesis by simp
    next
      case (Suc j)
      with i each show ?thesis by simp
    qed
  qed
qed

lemma len_loader_iter:
  assumes "len_loader dl \<noteq> 0"
  shows "len_loader dl = length (iter_loader dl)"
proof -
  from assms have "0 < batch_size dl"
    by (cases "batch_size dl = 0") (simp_all add: len_loader_def)
  then show ?thesis by (simp add: length_iter_loader)
qed

text \<open>
  Claim C8. When the evaluation of a fold returns, there is one tuple of per-batch values
  (mean loss, accuracy, precision, recall) for each batch of the fold, computed by the
  classifier and \<^verbatim>\<open>accuracy\<close> on that batch, and each reported value is the sum of the
  per-batch values divided by the number of batches, which is \<^verbatim>\<open>len(eval_loader)\<close>;
  the number of examples is counted separately and divides nothing. In the small run the
  batches have 2, 2 and 1 examples and accuracies 1/2, 1/2 and 1: the reported accuracy
  is 2/3, not the 3/5 of the five examples.
\<close>

theorem evaluate_macro_average:
  assumes "evaluate M h eval_loader = Inr (h', ev)"
  shows "\<exists>vals. length vals = length (iter_loader eval_loader)
      \<and> 0 < length (iter_loader eval_loader)
      \<and> len_loader eval_loader = length (iter_loader eval_loader)
      \<and> sum_loss ev = np_div_count (np_sum (map fst vals)) (length (iter_loader eval_loader))
      \<and> sum_accuracy ev
          = np_div_count (np_sum (map (\<lambda>v. fst (snd v)) vals)) (length (iter_loader eval_loader))
      \<and> sum_precision ev
          = np_div_count (np_sum (map (\<lambda>v. fst (snd (snd v))) vals)) (length (iter_loader eval_loader))
      \<and> sum_recall ev
          = np_div_count (np_sum (map (\<lambda>v. snd (snd (snd v))) vals)) (length (iter_loader eval_loader))
      \<and> eval_examples ev = sum_list (map (\<lambda>b. length (fst b)) (iter_loader eval_loader))
      \<and> (\<forall>i<length (iter_loader eval_loader).
            fst (vals ! i)
              = tensor_mean (fst (M ((h @ [ModelEval]) @ map Forward (take i (iter_loader eval_loader)))
                                    (iter_loader eval_loader ! i)))
          \<and> accuracy (snd (M ((h @ [ModelEval]) @ map Forward (take i (iter_loader eval_loader)))
                                (iter_loader eval_loader ! i)))
                       (snd (snd (iter_loader eval_loader ! i)))
              = Inr (snd (vals ! i)))"
proof -
  let ?bs = "iter_loader eval_loader"
  let ?a0 = "\<lparr>sum_loss = Fin 0, sum_accuracy = Fin 0, sum_precision = Fin 0,
              sum_recall = Fin 0, eval_examples = 0\<rparr>"
  from assms obtain a where
    run: "eval_batches M (h @ [ModelEval], ?a0) ?bs = Inr (h', a)"
    and n0: "len_loader eval_loader \<noteq> 0"
    and ev: "ev = \<lparr>sum_loss = np_div_count (sum_loss a) (len_loader eval_loader),
                  sum_accuracy = np_div_count (sum_accuracy a) (len_loader eval_loader),
                  sum_precision = np_div_count (sum_precision a) (len_loader eval_loader),
                  sum_recall = np_div_count (sum_recall a) (len_loader eval_loader),
                  eval_examples = eval_examples a\<rparr>"
    by (auto simp: evaluate_def split: sum.splits if_splits)
  have n: "len_loader eval_loader = length ?bs" using n0 by (rule len_loader_iter)
  from eval_batches_sums [OF run] obtain vals where
    len: "length vals = length ?bs"
    and sl: "sum_loss a = foldl np_add (sum_loss ?a0) (map fst vals)"
    and sa: "sum_accuracy a = foldl np_add (sum_accuracy ?a0) (map (\<lambda>v. fst (snd v)) vals)"
    and sp: "sum_precision a = foldl np_add (sum_precision ?a0) (map (\<lambda>v. fst (snd (snd v))) vals)"
    and sr: "sum_recall a = foldl np_add (sum_recall ?a0) (map (\<lambda>v. snd (snd (snd v))) vals)"
    and ex: "eval_examples a = eval_examples ?a0 + sum_list (map (\<lambda>b. length (fst b)) ?bs)"
    and each: "\<forall>i<length ?bs.
            fst (vals ! i) = tensor_mean (fst (M ((h @ [ModelEval]) @ map Forward (take i ?bs)) (?bs ! i)))
          \<and> accuracy (snd (M ((h @ [ModelEval]) @ map Forward (take i ?bs)) (?bs ! i))) (snd (snd (?bs ! i)))
              = Inr (snd (vals ! i))"
    by blast
  show ?thesis
  proof (intro exI [of _ vals] conjI)
    show "length vals = length ?bs" by (rule len)
    show "0 < length ?bs" using n n0 by simp
    show "len_loader eval_loader = length ?bs" by (rule n)
    show "sum_loss ev = np_div_count (np_sum (map fst vals)) (length ?bs)"
      using sl by (simp add: ev n np_sum_def)
    show "sum_accuracy ev = np_div_count (np_sum (map (\<lambda>v. fst (snd v)) vals)) (length ?bs)"
      using sa by (simp add: ev n np_sum_def)
    show "sum_precision ev = np_div_count (np_sum (map (\<lambda>v. fst (snd (snd v))) vals)) (length ?bs)"
      using sp by (simp add: ev n np_sum_def)
    show "sum_recall ev = np_div_count (np_sum (map (\<lambda>v. snd (snd (snd v))) vals)) (length ?bs)"
      using sr by (simp add: ev n np_sum_def)
    show "eval_examples ev = sum_list (map (\<lambda>b. length (fst b)) ?bs)"
      using ex by (simp add: ev)
    show "\<forall>i<length ?bs.
            fst (vals ! i) = tensor_mean (fst (M ((h @ [ModelEval]) @ map Forward (take i ?bs)) (?bs ! i)))
          \<and> accuracy (snd (M ((h @ [ModelEval]) @ map Forward (take i ?bs)) (?bs ! i))) (snd (snd (?bs ! i)))
              = Inr (snd (vals ! i))"
      by (rule each)
  qed
qed

lemma demo_evaluate:
  "evaluate demo_model [] (demo_loaders ! 3) =
     Inr ([ModelEval, Forward (collate [sample 1, sample 0]), Forward (collate [sample 0, sample 1]),
           Forward (collate [sample 1])],
          \<lparr>sum_loss = Fin 2, sum_accuracy = Fin (2 / 3), sum_precision = Fin (2 / 3),
           sum_recall = Fin 1, eval_examples = 5\<rparr>)"
  by (simp add: evaluate_def iter_loader_def eval_step_def len_loader_def demo_loaders_def
      demo_datasets_def collate_def sample_def
      demo_model_def tensor_mean_def np_sum_def accuracy_def eq_broadcast_def
      np_true_divide_def Let_def)

theorem evaluate_macro_average_witness:
  "evaluate demo_model [] (demo_loaders ! 3) =
     Inr ([ModelEval, Forward (collate [sample 1, sample 0]), Forward (collate [sample 0, sample 1]),
           Forward (collate [sample 1])],
          \<lparr>sum_loss = Fin 2, sum_accuracy = Fin (2 / 3), sum_precision = Fin (2 / 3),
           sum_recall = Fin 1, eval_examples = 5\<rparr>)
   \<and> length (iter_loader (demo_loaders ! 3)) = 3
   \<and> len_loader (demo_loaders ! 3) = 3"
proof -
  have n: "length (iter_loader (demo_loaders ! 3)) = 3" by (simp add: demo_iter)
  from evaluate_macro_average [OF demo_evaluate]
  have "len_loader (demo_loaders ! 3) = length (iter_loader (demo_loaders ! 3))" by blast
  with n demo_evaluate show ?thesis by simp
qed

section \<open>Properties of the epoch loop\<close>

lemma outcome_quiet: "list_all quiet h \<Longrightarrow> outcome (h @ h') = outcome h'"
proof (induction h)
  case Nil then show ?case by simp
next
  case (Cons e h)
  then show ?case by (cases e) simp_all
qed

lemma outcome_append:
  "take 1 X \<noteq> [TorchSave] \<Longrightarrow> outcome (h @ X) = outcome h @ outcome X"
proof (induction h)
  case Nil then show ?case by simp
next
  case (Cons e h)
  show ?case
  proof (cases e)
    case (LogResults r)
    have "take 1 (h @ X) = [TorchSave] \<longleftrightarrow> take 1 h = [TorchSave]"
      using Cons.prems by (cases h) simp_all
    with Cons LogResults show ?thesis by simp
  qed (use Cons in simp_all)
qed

lemma quiet_steps_trace: "list_all quiet (steps_trace bs ls)"
proof (induction bs arbitrary: ls)
  case Nil then show ?case by (simp add: steps_trace_def)
next
  case (Cons b bs)
  show ?case
  proof (cases ls)
    case Nil then show ?thesis by (simp add: steps_trace_def)
  next
    case (Cons l ls')
    with Cons.IH [of ls'] show ?thesis
      by (simp add: steps_trace_Cons step_events_def)
  qed
qed

lemma quiet_forwards: "list_all quiet (map Forward bs)"
  by (induction bs) simp_all

lemma epoch_Inr:
  assumes "epoch M n dls spe st = Inr st'"
  shows "\<exists>h1 loss_total h2 ev.
      train_folds M n (history st @ [ModelTrain], Fin 0) (take 3 dls) = Inr (h1, loss_total)
    \<and> 3 < length dls \<and> evaluate M h1 (dls ! 3) = Inr (h2, ev) \<and> spe \<noteq> 0
    \<and> st' = checkpoint_decision (sum_accuracy ev)
              \<lparr>history = h2 @ [LogResults
                   \<lparr>eval_loss = sum_loss ev, eval_accuracy = sum_accuracy ev,
                    eval_precision = sum_precision ev, eval_recall = sum_recall ev,
                    train_loss = np_div_count loss_total spe\<rparr>],
               best_accuracy = best_accuracy st\<rparr>"
  using assms
  by (auto simp: epoch_def py_truediv_def split: sum.splits if_splits prod.splits)

text \<open>
  The training loss that an epoch logs: the sum of the losses of the training steps,
  one per batch of the three training folds, divided by \<^verbatim>\<open>step_per_epoch\<close>.
\<close>

lemma epoch_train_loss:
  assumes "epoch M n_gpu dls spe st = Inr st'"
  shows "\<exists>vs r. length vs = length (concat (map iter_loader (take 3 dls)))
      \<and> LogResults r \<in> set (history st')
      \<and> train_loss r = np_div_count (np_sum vs) spe"
proof -
  from epoch_Inr [OF assms] obtain h1 loss_total h2 ev where
    tr: "train_folds M n_gpu (history st @ [ModelTrain], Fin 0) (take 3 dls) = Inr (h1, loss_total)"
    and evl: "evaluate M h1 (dls ! 3) = Inr (h2, ev)"
    and st': "st' = checkpoint_decision (sum_accuracy ev)
              \<lparr>history = h2 @ [LogResults
                   \<lparr>eval_loss = sum_loss ev, eval_accuracy = sum_accuracy ev,
                    eval_precision = sum_precision ev, eval_recall = sum_recall ev,
                    train_loss = np_div_count loss_total spe\<rparr>],
               best_accuracy = best_accuracy st\<rparr>"
    by blast
  let ?r = "\<lparr>eval_loss = sum_loss ev, eval_accuracy = sum_accuracy ev,
                    eval_precision = sum_precision ev, eval_recall = sum_recall ev,
                    train_loss = np_div_count loss_total spe\<rparr>"
  from tr have "train_batches M n_gpu (history st @ [ModelTrain], Fin 0)
      (concat (map iter_loader (take 3 dls))) = Inr (h1, loss_total)"
    by (simp add: train_folds_batches)
  from train_batches_trace [OF this] obtain vs where
    len: "length vs = length (concat (map iter_loader (take 3 dls)))"
    and tot: "loss_total = foldl np_add (Fin 0) vs" by blast
  have "LogResults ?r \<in> set (history st')"
    by (simp add: st' checkpoint_decision_def)
  moreover have "train_loss ?r = np_div_count (np_sum vs) spe"
    by (simp add: tot np_sum_def)
  ultimately show ?thesis using len by blast
qed

text \<open>
  Claim C1. By \<open>epoch_train_loss\<close> the code divides the summed training loss by
  \<^verbatim>\<open>step_per_epoch = len(data_loaders[0])*3\<close>. In the small run the three training
  folds have 1, 1 and 2 batches, each with loss 2: the sum 8 is divided by 3, and the
  logged \<^verbatim>\<open>train_loss\<close> is 8/3, where the sum over the number of batches is 8/4 = 2.
\<close>

theorem train_loss_first_fold_times_three:
  "map_sum id (\<lambda>st. (map train_loss (logged (history st)), backward_losses (history st)))
       (main demo_args 2 demo_model demo_datasets)
     = Inr ([Fin (8 / 3)], [[Fin 2], [Fin 2], [Fin 2], [Fin 2]])
   \<and> map (\<lambda>dl. length (iter_loader dl)) (take 3 demo_loaders) = [1, 1, 2]
   \<and> np_div_count (np_sum [Fin 2, Fin 2, Fin 2, Fin 2]) 4 = Fin 2"
  by (simp add: run_defs demo_args_def demo_datasets_def demo_loaders_def demo_model_def)

lemma foldl_np_add_nonneg:
  assumes "\<forall>a \<in> set xs. \<exists>x. a = Fin x \<and> 0 \<le> x" and "0 \<le> s"
  shows "\<exists>y. foldl np_add (Fin s) xs = Fin y \<and> 0 \<le> y"
  using assms
proof (induction xs arbitrary: s)
  case Nil then show ?case by simp
next
  case (Cons a xs)
  then obtain x where a: "a = Fin x" and x: "0 \<le> x" by auto
  have "\<exists>y. foldl np_add (Fin (s + x)) xs = Fin y \<and> 0 \<le> y"
    by (rule Cons.IH) (use Cons.prems x in auto)
  then show ?case by (simp add: a)
qed

lemma evaluate_history_accuracy:
  assumes "evaluate M h eval_loader = Inr (h', ev)"
  shows "h' = (h @ [ModelEval]) @ map Forward (iter_loader eval_loader)
       \<and> (\<exists>x. sum_accuracy ev = Fin x \<and> 0 \<le> x)"
proof -
  let ?bs = "iter_loader eval_loader"
  let ?a0 = "\<lparr>sum_loss = Fin 0, sum_accuracy = Fin 0, sum_precision = Fin 0,
              sum_recall = Fin 0, eval_examples = 0\<rparr>"
  from assms obtain a where
    run: "eval_batches M (h @ [ModelEval], ?a0) ?bs = Inr (h', a)"
    and n0: "len_loader eval_loader \<noteq> 0"
    and ev: "sum_accuracy ev = np_div_count (sum_accuracy a) (len_loader eval_loader)"
    by (auto simp: evaluate_def split: sum.splits if_splits)
  from eval_batches_sums [OF run] obtain vals where
    len: "length vals = length ?bs"
    and h': "h' = (h @ [ModelEval]) @ map Forward ?bs"
    and sa: "sum_accuracy a = foldl np_add (sum_accuracy ?a0) (map (\<lambda>v. fst (snd v)) vals)"
    and each: "\<forall>i<length ?bs.
            fst (vals ! i) = tensor_mean (fst (M ((h @ [ModelEval]) @ map Forward (take i ?bs)) (?bs ! i)))
          \<and> accuracy (snd (M ((h @ [ModelEval]) @ map Forward (take i ?bs)) (?bs ! i))) (snd (snd (?bs ! i)))
              = Inr (snd (vals ! i))"
    by blast
  have "\<forall>a \<in> set (map (\<lambda>v. fst (snd v)) vals). \<exists>x. a = Fin x \<and> 0 \<le> x"
  proof
    fix a assume "a \<in> set (map (\<lambda>v. fst (snd v)) vals)"
    then obtain i where i: "i < length vals" and a: "a = fst (snd (vals ! i))"
      by (auto simp: in_set_conv_nth)
    from each i len obtain logits labels where "accuracy logits labels = Inr (snd (vals ! i))"
      by auto
    then have "accuracy logits labels = Inr (fst (snd (vals ! i)), fst (snd (snd (vals ! i))), snd (snd (snd (vals ! i))))"
      by simp
    from accuracy_nonneg [OF this] a show "\<exists>x. a = Fin x \<and> 0 \<le> x" by simp
  qed
  then have "\<exists>y. foldl np_add (Fin 0) (map (\<lambda>v. fst (snd v)) vals) = Fin y \<and> 0 \<le> y"
    by (rule foldl_np_add_nonneg) simp
  then obtain y where "sum_accuracy a = Fin y" and "0 \<le> y" using sa by auto
  then have "sum_accuracy ev = Fin (y / real (len_loader eval_loader)) \<and> 0 \<le> y / real (len_loader eval_loader)"
    using ev by simp
  with h' show ?thesis by blast
qed

lemma epoch_shape:
  assumes "epoch M n dls spe st = Inr st'"
  shows "\<exists>mid r x. list_all quiet mid \<and> eval_accuracy r = Fin x \<and> 0 \<le> x
    \<and> history st' = history st @ ModelTrain # mid @ LogResults r #
         (if np_ge (Fin x) (best_accuracy st) then [TorchSave] else [])
    \<and> best_accuracy st' = (if np_ge (Fin x) (best_accuracy st) then Fin x else best_accuracy st)"
proof -
  from epoch_Inr [OF assms] obtain h1 loss_total h2 ev where
    tr: "train_folds M n (history st @ [ModelTrain], Fin 0) (take 3 dls) = Inr (h1, loss_total)"
    and evl: "evaluate M h1 (dls ! 3) = Inr (h2, ev)"
    and st': "st' = checkpoint_decision (sum_accuracy ev)
              \<lparr>history = h2 @ [LogResults
                   \<lparr>eval_loss = sum_loss ev, eval_accuracy = sum_accuracy ev,
                    eval_precision = sum_precision ev, eval_recall = sum_recall ev,
                    train_loss = np_div_count loss_total spe\<rparr>],
               best_accuracy = best_accuracy st\<rparr>"
    by blast
  let ?r = "\<lparr>eval_loss = sum_loss ev, eval_accuracy = sum_accuracy ev,
                    eval_precision = sum_precision ev, eval_recall = sum_recall ev,
                    train_loss = np_div_count loss_total spe\<rparr>"
  let ?bs = "concat (map iter_loader (take 3 dls))"
  from tr have "train_batches M n (history st @ [ModelTrain], Fin 0) ?bs = Inr (h1, loss_total)"
    by (simp add: train_folds_batches)
  from train_batches_trace [OF this] obtain vs where
    h1: "h1 = (history st @ [ModelTrain]) @ steps_trace ?bs (map (\<lambda>v. [v]) vs)" by blast
  from evaluate_history_accuracy [OF evl] obtain x where
    h2: "h2 = (h1 @ [ModelEval]) @ map Forward (iter_loader (dls ! 3))"
    and x: "sum_accuracy ev = Fin x" "0 \<le> x" by blast
  let ?mid = "steps_trace ?bs (map (\<lambda>v. [v]) vs) @ ModelEval # map Forward (iter_loader (dls ! 3))"
  have q: "list_all quiet ?mid"
    by (simp add: quiet_steps_trace quiet_forwards)
  have hist: "h2 @ [LogResults ?r] = history st @ ModelTrain # ?mid @ [LogResults ?r]"
    by (simp add: h1 h2)
  show ?thesis
  proof (intro exI [of _ ?mid] exI [of _ ?r] exI [of _ x] conjI)
    show "list_all quiet ?mid" by (rule q)
    show "eval_accuracy ?r = Fin x" using x by simp
    show "0 \<le> x" by (rule x)
    show "history st' = history st @ ModelTrain # ?mid @ LogResults ?r #
         (if np_ge (Fin x) (best_accuracy st) then [TorchSave] else [])"
      unfolding st' checkpoint_decision_def using x hist by simp
    show "best_accuracy st' = (if np_ge (Fin x) (best_accuracy st) then Fin x else best_accuracy st)"
      unfolding st' checkpoint_decision_def using x by simp
  qed
qed

lemma outcome_epoch:
  assumes "list_all quiet mid"
  shows "outcome (ModelTrain # mid @ LogResults r # (if s then [TorchSave] else []))
         = [(eval_accuracy r, s)]"
proof -
  have "outcome ((ModelTrain # mid) @ LogResults r # (if s then [TorchSave] else []))
        = outcome (LogResults r # (if s then [TorchSave] else []))"
    by (rule outcome_quiet) (simp add: assms)
  then show ?thesis by simp
qed

lemma epochs_outcome:
  assumes "epochs M n dls spe k st = Inr st'"
  shows "\<exists>X. history st' = history st @ X \<and> take 1 X \<noteq> [TorchSave]
      \<and> length (outcome X) = k
      \<and> outcome X = decisions (best_accuracy st) (map fst (outcome X))
      \<and> best_accuracy st' = best_after (best_accuracy st) (map fst (outcome X))
      \<and> (\<forall>a \<in> set (map fst (outcome X)). \<exists>x. a = Fin x \<and> 0 \<le> x)"
  using assms
proof (induction k arbitrary: st)
  case 0
  then show ?case by (simp add: best_after_def)
next
  case (Suc k)
  from Suc.prems obtain st1 where
    e1: "epoch M n dls spe st = Inr st1" and rest: "epochs M n dls spe k st1 = Inr st'"
    by (auto split: sum.splits)
  from epoch_shape [OF e1] obtain mid r x where
    q: "list_all quiet mid" and acc: "eval_accuracy r = Fin x" and x: "0 \<le> x"
    and h1: "history st1 = history st @ ModelTrain # mid @ LogResults r #
         (if np_ge (Fin x) (best_accuracy st) then [TorchSave] else [])"
    and b1: "best_accuracy st1 = (if np_ge (Fin x) (best_accuracy st) then Fin x else best_accuracy st)"
    by blast
  let ?s = "np_ge (Fin x) (best_accuracy st)"
  let ?E = "ModelTrain # mid @ LogResults r # (if ?s then [TorchSave] else [])"
  from Suc.IH [OF rest] obtain X where
    hX: "history st' = history st1 @ X" and tX: "take 1 X \<noteq> [TorchSave]"
    and lX: "length (outcome X) = k"
    and dX: "outcome X = decisions (best_accuracy st1) (map fst (outcome X))"
    and bX: "best_accuracy st' = best_after (best_accuracy st1) (map fst (outcome X))"
    and nX: "\<forall>a \<in> set (map fst (outcome X)). \<exists>x. a = Fin x \<and> 0 \<le> x"
    by blast
  have oE: "outcome ?E = [(Fin x, ?s)]"
    using outcome_epoch [OF q, of r ?s] acc by simp
  have oEX: "outcome (?E @ X) = (Fin x, ?s) # outcome X"
    using outcome_append [OF tX, of ?E] oE by simp
  show ?case
  proof (intro exI [of _ "?E @ X"] conjI)
    show "history st' = history st @ ?E @ X" using hX h1 by simp
    show "take 1 (?E @ X) \<noteq> [TorchSave]" by simp
    show "length (outcome (?E @ X)) = Suc k" using oEX lX by simp
    show "outcome (?E @ X) = decisions (best_accuracy st) (map fst (outcome (?E @ X)))"
      unfolding oEX using dX b1 by simp
    show "best_accuracy st' = best_after (best_accuracy st) (map fst (outcome (?E @ X)))"
      unfolding oEX using bX b1 by (simp add: best_after_def)
    show "\<forall>a \<in> set (map fst (outcome (?E @ X))). \<exists>x. a = Fin x \<and> 0 \<le> x"
      unfolding oEX using nX x by simp
  qed
qed

lemma main_Inr:
  assumes "main a n M datasets = Inr st"
  shows "\<exists>dls. build_loaders a datasets = Inr dls
     \<and> epochs M n dls (len_loader (dls ! 0) * 3) (nat (num_train_epochs a))
          \<lparr>history = [], best_accuracy = Fin 0\<rparr> = Inr st"
  using assms by (auto simp: main_def Let_def split: sum.splits)

text \<open>
  Claim C5. In every run that completes there is one checkpoint decision per epoch, and
  the decisions are those of the rule: an epoch saves exactly when its evaluation accuracy
  is at least the best accuracy so far (0 at the start, so a tie saves), and a save makes
  that accuracy the best. On the epoch accuracies 0.5, 0.6, 0.55, 0.6, 0.7 the epochs
  with accuracies 0.5, 0.6, 0.6 and 0.7 save and the epoch with 0.55 does not.
\<close>

theorem checkpoint_rule:
  assumes "main a n_gpu M datasets = Inr st"
  shows "length (outcome (history st)) = nat (num_train_epochs a)
       \<and> outcome (history st) = decisions (Fin 0) (map fst (outcome (history st)))
       \<and> best_accuracy st = best_after (Fin 0) (map fst (outcome (history st)))"
proof -
  from main_Inr [OF assms] obtain dls where
    "epochs M n_gpu dls (len_loader (dls ! 0) * 3) (nat (num_train_epochs a))
          \<lparr>history = [], best_accuracy = Fin 0\<rparr> = Inr st" by blast
  from epochs_outcome [OF this] show ?thesis by auto
qed

lemma scenario_accuracies:
  "map_sum id (\<lambda>st. map fst (outcome (history st)))
      (main scenario_args 1 scenario_model scenario_datasets)
   = Inr [Fin (1 / 2), Fin (3 / 5), Fin (11 / 20), Fin (3 / 5), Fin (7 / 10)]"
  by (simp add: run_defs epochs_numeral scenario_args_def scenario_datasets_def scenario_model_def scenario_hits_def)

theorem checkpoint_rule_witness:
  "map_sum id (\<lambda>st. outcome (history st))
      (main scenario_args 1 scenario_model scenario_datasets)
   = Inr [(Fin (1 / 2), True), (Fin (3 / 5), True), (Fin (11 / 20), False),
          (Fin (3 / 5), True), (Fin (7 / 10), True)]"
proof -
  let ?accs = "[Fin (1 / 2), Fin (3 / 5), Fin (11 / 20), Fin (3 / 5), Fin (7 / 10)]"
  from scenario_accuracies obtain st where
    st: "main scenario_args 1 scenario_model scenario_datasets = Inr st"
    and accs: "map fst (outcome (history st)) = ?accs"
    by (cases "main scenario_args 1 scenario_model scenario_datasets") auto
  from checkpoint_rule [OF st] have "outcome (history st) = decisions (Fin 0) ?accs"
    using accs by simp
  then have "outcome (history st) = [(Fin (1 / 2), True), (Fin (3 / 5), True),
      (Fin (11 / 20), False), (Fin (3 / 5), True), (Fin (7 / 10), True)]"
    by simp
  with st show ?thesis by simp
qed

lemma np_ge_refl: "b \<noteq> NaN \<Longrightarrow> np_ge b b"
  by (cases b) simp_all

lemma np_ge_trans: "np_ge a b \<Longrightarrow> np_ge b c \<Longrightarrow> np_ge a c"
  by (cases a; cases b; cases c) simp_all

lemma np_ge_not_nan: "np_ge a b \<Longrightarrow> a \<noteq> NaN"
  by (cases a) simp_all

lemma best_after_mono:
  "b \<noteq> NaN \<Longrightarrow> np_ge (best_after b accs) b \<and> best_after b accs \<noteq> NaN"
proof (induction accs arbitrary: b)
  case Nil
  then show ?case by (simp add: best_after_def np_ge_refl)
next
  case (Cons a accs)
  let ?b1 = "if np_ge a b then a else b"
  have b1: "?b1 \<noteq> NaN" using Cons.prems by (auto dest: np_ge_not_nan)
  have step: "np_ge ?b1 b" using Cons.prems by (simp add: np_ge_refl)
  from Cons.IH [OF b1] have "np_ge (best_after ?b1 accs) ?b1" "best_after ?b1 accs \<noteq> NaN"
    by simp_all
  moreover have "best_after b (a # accs) = best_after ?b1 accs"
    by (simp add: best_after_def)
  ultimately show ?case using step by (auto intro: np_ge_trans)
qed

text \<open>
  Claim C6. From any state that the epoch loop reaches from the initial one, running any
  number of further epochs leaves the best accuracy greater than or equal to what it was.
\<close>

theorem best_accuracy_monotone:
  assumes "epochs M n_gpu dls spe j \<lparr>history = [], best_accuracy = Fin 0\<rparr> = Inr st1"
    and "epochs M n_gpu dls spe k st1 = Inr st2"
  shows "np_ge (best_accuracy st2) (best_accuracy st1)"
proof -
  from epochs_outcome [OF assms(1)] obtain X where
    "best_accuracy st1 = best_after (Fin 0) (map fst (outcome X))" by auto
  then have n1: "best_accuracy st1 \<noteq> NaN"
    using best_after_mono [of "Fin 0"] by simp
  from epochs_outcome [OF assms(2)] obtain Y where
    "best_accuracy st2 = best_after (best_accuracy st1) (map fst (outcome Y))" by auto
  with best_after_mono [OF n1] show ?thesis by simp
qed

lemma demo_two_epochs:
  "map_sum id (\<lambda>st. (map fst (outcome (history st)), best_accuracy st))
      (epochs demo_model 2 demo_loaders 3 2 \<lparr>history = [], best_accuracy = Fin 0\<rparr>)
   = Inr ([Fin (2 / 3), Fin (1 / 3)], Fin (2 / 3))"
  by (simp add: run_defs epochs_numeral demo_datasets_def demo_loaders_def demo_model_def)

theorem best_accuracy_monotone_witness:
  "map_sum id (\<lambda>st. (map fst (outcome (history st)), best_accuracy st))
      (epochs demo_model 2 demo_loaders 3 2 \<lparr>history = [], best_accuracy = Fin 0\<rparr>)
   = Inr ([Fin (2 / 3), Fin (1 / 3)], Fin (2 / 3))
   \<and> map_sum id best_accuracy
      (epochs demo_model 2 demo_loaders 3 1 \<lparr>history = [], best_accuracy = Fin 0\<rparr>)
   = Inr (Fin (2 / 3))
   \<and> np_ge (Fin (2 / 3)) (Fin (2 / 3))"
proof -
  let ?init = "\<lparr>history = [], best_accuracy = Fin 0\<rparr>"
  from demo_two_epochs obtain st2 where
    st2: "epochs demo_model 2 demo_loaders 3 2 ?init = Inr st2"
    and b2: "best_accuracy st2 = Fin (2 / 3)"
    by (cases "epochs demo_model 2 demo_loaders 3 2 ?init") auto
  from st2 obtain st1 where
    st1: "epochs demo_model 2 demo_loaders 3 1 ?init = Inr st1"
    and st12: "epochs demo_model 2 demo_loaders 3 1 st1 = Inr st2"
    by (auto simp: epochs_numeral split: sum.splits)
  from best_accuracy_monotone [OF st1 st12]
  have ge: "np_ge (best_accuracy st2) (best_accuracy st1)" .
  have "map_sum id best_accuracy (epochs demo_model 2 demo_loaders 3 1 ?init) = Inr (Fin (2 / 3))"
    by (simp add: run_defs demo_datasets_def demo_loaders_def demo_model_def)
  with demo_two_epochs ge b2 st1 show ?thesis by simp
qed

lemma outcome_saved: "(acc, True) \<in> set (outcome h) \<Longrightarrow> TorchSave \<in> set h"
proof (induction h)
  case Nil then show ?case by simp
next
  case (Cons e h)
  show ?case
  proof (cases e)
    case (LogResults r)
    with Cons show ?thesis by (cases h) auto
  qed (use Cons in auto)
qed

text \<open>
  Claim C10. In every run of at least one epoch that completes, the first epoch saves a
  checkpoint: the first decision of the history is a save, and the history holds a save
  event.
\<close>

theorem first_epoch_saves:
  assumes "main a n_gpu M datasets = Inr st" and "0 < num_train_epochs a"
  shows "outcome (history st) \<noteq> [] \<and> snd (hd (outcome (history st))) \<and> TorchSave \<in> set (history st)"
proof -
  from main_Inr [OF assms(1)] obtain dls where
    "epochs M n_gpu dls (len_loader (dls ! 0) * 3) (nat (num_train_epochs a))
          \<lparr>history = [], best_accuracy = Fin 0\<rparr> = Inr st" by blast
  from epochs_outcome [OF this] have
    len: "length (outcome (history st)) = nat (num_train_epochs a)"
    and dec: "outcome (history st) = decisions (Fin 0) (map fst (outcome (history st)))"
    and nn: "\<forall>a \<in> set (map fst (outcome (history st))). \<exists>x. a = Fin x \<and> 0 \<le> x"
    by auto
  from len assms(2) obtain p rest where o: "outcome (history st) = p # rest"
    by (cases "outcome (history st)") auto
  from nn o obtain x where x: "fst p = Fin x" "0 \<le> x" by auto
  from dec o have "p = (fst p, np_ge (fst p) (Fin 0))" by simp
  with x have p: "p = (Fin x, True)" by simp
  then have "(Fin x, True) \<in> set (outcome (history st))" using o by simp
  then have "TorchSave \<in> set (history st)" by (rule outcome_saved)
  with o p show ?thesis by simp
qed

lemma demo_main_outcome:
  "map_sum id (\<lambda>st. outcome (history st)) (main demo_args 2 demo_model demo_datasets)
     = Inr [(Fin (2 / 3), True)]"
  by (simp add: run_defs demo_args_def demo_datasets_def demo_loaders_def demo_model_def)

theorem first_epoch_saves_witness:
  "map_sum id (\<lambda>st. outcome (history st)) (main demo_args 2 demo_model demo_datasets)
     = Inr [(Fin (2 / 3), True)]
   \<and> 0 < num_train_epochs demo_args
   \<and> map_sum id (\<lambda>st. TorchSave \<in> set (history st)) (main demo_args 2 demo_model demo_datasets)
     = Inr True"
proof -
  from demo_main_outcome obtain st where
    st: "main demo_args 2 demo_model demo_datasets = Inr st"
    by (cases "main demo_args 2 demo_model demo_datasets") auto
  have pos: "0 < num_train_epochs demo_args" by (simp add: demo_args_def)
  from first_epoch_saves [OF st pos] have "TorchSave \<in> set (history st)" by simp
  with st demo_main_outcome pos show ?thesis by simp
qed

end
